theory Spec2Isabelle
  imports Main "HOL-Library.Word" "HOL-Library.Char_ord" "HOL-Library.List_Lexorder"
begin

unbundle bit_operations_syntax

section \<open>The thread-safe queue (threadsafe\_queue.h)\<close>

text \<open>
  \<^verbatim>\<open>ThreadSafeQueue<T>\<close> holds a \<^verbatim>\<open>std::queue\<close> of shared pointers, front first, and
  the atomic flag \<^verbatim>\<open>is_terminated_\<close>. Every member function except \<^verbatim>\<open>terminate\<close> runs
  its whole body under the mutex \<^verbatim>\<open>m_\<close>, so one call is one atomic transition of
  this record. The trailing underscore of the C++ member names is dropped.
\<close>

record 'a ThreadSafeQueue =
  data_queue :: "'a list"
  is_terminated :: bool

text \<open>The default constructor: an empty queue, not terminated.\<close>

definition new_queue :: "'a ThreadSafeQueue" where
  "new_queue = \<lparr>data_queue = [], is_terminated = False\<rparr>"

text \<open>\<^verbatim>\<open>push\<close> (and \<^verbatim>\<open>share_push\<close>): append at the back.\<close>

definition push :: "'a \<Rightarrow> 'a ThreadSafeQueue \<Rightarrow> 'a ThreadSafeQueue" where
  "push new_value q = q\<lparr>data_queue := data_queue q @ [new_value]\<rparr>"

definition empty_q :: "'a ThreadSafeQueue \<Rightarrow> bool" where
  "empty_q q = (data_queue q = [])"

text \<open>
  \<^verbatim>\<open>int size() const\<close> returns \<^verbatim>\<open>data_queue_.size()\<close> converted to \<^verbatim>\<open>int\<close>: the
  element count truncated to 32 bits.
\<close>

definition size_q :: "'a ThreadSafeQueue \<Rightarrow> 32 word" where
  "size_q q = of_nat (length (data_queue q))"

text \<open>
  \<^verbatim>\<open>bool try_pop(T &value)\<close>: the flag returned, the value written (if any) and the
  queue afterwards.
\<close>

definition try_pop_value :: "'a ThreadSafeQueue \<Rightarrow> bool \<times> 'a option \<times> 'a ThreadSafeQueue" where
  "try_pop_value q =
     (case data_queue q of
        [] \<Rightarrow> (False, None, q)
      | x # xs \<Rightarrow> (True, Some x, q\<lparr>data_queue := xs\<rparr>))"

text \<open>\<^verbatim>\<open>std::shared_ptr<T> try_pop()\<close>: the empty pointer is \<open>None\<close>.\<close>

definition try_pop :: "'a ThreadSafeQueue \<Rightarrow> 'a option \<times> 'a ThreadSafeQueue" where
  "try_pop q =
     (case data_queue q of
        [] \<Rightarrow> (None, q)
      | x # xs \<Rightarrow> (Some x, q\<lparr>data_queue := xs\<rparr>))"

text \<open>
  A call of a waiting operation either stays blocked on the condition variable (its
  wait predicate is false in the state it sees) or returns.
\<close>

datatype 'a waited = Blocked | Returned 'a

text \<open>
  \<^verbatim>\<open>std::shared_ptr<T> wait_and_pop()\<close>: waits for
  \<^verbatim>\<open>!data_queue_.empty() || is_terminated_\<close>, then returns \<^verbatim>\<open>nullptr\<close> if the flag is
  set, and the front element otherwise.
\<close>

definition wait_and_pop :: "'a ThreadSafeQueue \<Rightarrow> 'a option waited \<times> 'a ThreadSafeQueue" where
  "wait_and_pop q =
     (if \<not> (data_queue q \<noteq> [] \<or> is_terminated q) then (Blocked, q)
      else if is_terminated q then (Returned None, q)
      else (case data_queue q of
              [] \<Rightarrow> (Returned None, q)
            | x # xs \<Rightarrow> (Returned (Some x), q\<lparr>data_queue := xs\<rparr>)))"

text \<open>
  \<^verbatim>\<open>void wait_and_pop(T &value)\<close>: waits for \<^verbatim>\<open>!data_queue_.empty()\<close> only; the
  termination flag is not looked at.
\<close>

definition wait_and_pop_value :: "'a ThreadSafeQueue \<Rightarrow> 'a waited \<times> 'a ThreadSafeQueue" where
  "wait_and_pop_value q =
     (case data_queue q of
        [] \<Rightarrow> (Blocked, q)
      | x # xs \<Rightarrow> (Returned x, q\<lparr>data_queue := xs\<rparr>))"

text \<open>\<^verbatim>\<open>terminate\<close>: sets the flag and wakes every waiter.\<close>

definition terminate :: "'a ThreadSafeQueue \<Rightarrow> 'a ThreadSafeQueue" where
  "terminate q = q\<lparr>is_terminated := True\<rparr>"

text \<open>
  Successive calls by one consumer with no other thread running: \<open>n\<close> calls of the
  non-blocking pop, and \<open>n\<close> calls of the waiting pop (a call that blocks is the last
  one: nothing can wake it).
\<close>

fun try_pop_times :: "nat \<Rightarrow> 'a ThreadSafeQueue \<Rightarrow> 'a option list \<times> 'a ThreadSafeQueue" where
  "try_pop_times 0 q = ([], q)"
| "try_pop_times (Suc n) q =
     (case try_pop q of (r, q') \<Rightarrow>
        (case try_pop_times n q' of (rs, q'') \<Rightarrow> (r # rs, q'')))"

fun wait_and_pop_times ::
  "nat \<Rightarrow> 'a ThreadSafeQueue \<Rightarrow> 'a option waited list \<times> 'a ThreadSafeQueue" where
  "wait_and_pop_times 0 q = ([], q)"
| "wait_and_pop_times (Suc n) q =
     (case wait_and_pop q of
        (Blocked, q') \<Rightarrow> ([Blocked], q')
      | (Returned r, q') \<Rightarrow>
          (case wait_and_pop_times n q' of (rs, q'') \<Rightarrow> (Returned r # rs, q'')))"


section \<open>The sampling block of the plugin (gstdsexample.cpp)\<close>

text \<open>
  Modelled from the spec: the declarations of \<^verbatim>\<open>VLMFrameData\<close> and of the \<^verbatim>\<open>vlm_*\<close>
  members of \<^verbatim>\<open>GstDsExample\<close> are in gstdsexample.h, which is not among the sources.
  The field widths follow the spec's data model (source id, width and height 32 bits,
  frame number and timestamp 64 bits, the counter 64 bits) and the \<^verbatim>\<open>guint\<close> property
  accessors used in \<^verbatim>\<open>gst_dsexample_set_property\<close> (queue size and interval 32 bits).
\<close>

record VLMFrameData =
  width :: "32 word"
  height :: "32 word"
  timestamp :: "64 word"
  source_id :: "32 word"
  frame_number :: "64 word"
  format :: string

text \<open>
  The three members of the SDK's \<^verbatim>\<open>NvDsFrameMeta\<close> that the block reads:
  \<^verbatim>\<open>gint frame_num\<close>, \<^verbatim>\<open>guint64 buf_pts\<close>, \<^verbatim>\<open>guint source_id\<close>.
\<close>

record NvDsFrameMeta =
  frame_num :: "32 word"
  buf_pts :: "64 word"
  meta_source_id :: "32 word"

record GstDsExample =
  vlm_enabled :: bool
  vlm_thread_running :: bool
  vlm_frame_queue :: "VLMFrameData ThreadSafeQueue"
  vlm_queue_max_size :: "32 word"
  vlm_frame_interval :: "32 word"
  vlm_frame_counter :: "64 word"

text \<open>
  The values \<^verbatim>\<open>gst_dsexample_init\<close> assigns (lines 285--292), and the ranges that
  \<^verbatim>\<open>gst_dsexample_class_init\<close> registers for the two \<^verbatim>\<open>guint\<close> properties
  (\<^verbatim>\<open>g_param_spec_uint\<close> with minimum, maximum, default): GObject stores into the
  members only values inside these ranges.
\<close>

definition gst_dsexample_init :: GstDsExample where
  "gst_dsexample_init =
     \<lparr>vlm_enabled = True, vlm_thread_running = False, vlm_frame_queue = new_queue,
      vlm_queue_max_size = 100, vlm_frame_interval = 30, vlm_frame_counter = 0\<rparr>"

definition vlm_queue_size_range :: "32 word \<Rightarrow> bool" where
  "vlm_queue_size_range c = (1 \<le> c \<and> c \<le> 1000)"

definition vlm_frame_interval_range :: "32 word \<Rightarrow> bool" where
  "vlm_frame_interval_range n = (1 \<le> n \<and> n \<le> 300)"

text \<open>
  Lines 671--677, the producer-side admit path: if \<^verbatim>\<open>size() >= vlm_queue_max_size\<close>
  (the \<^verbatim>\<open>int\<close> is converted to unsigned for the comparison) drop the oldest element
  with \<^verbatim>\<open>try_pop(dropped)\<close>, then \<^verbatim>\<open>push\<close>. Three separate calls, each taking the
  mutex on its own.
\<close>

definition vlm_enqueue :: "32 word \<Rightarrow> 'a \<Rightarrow> 'a ThreadSafeQueue \<Rightarrow> 'a ThreadSafeQueue" where
  "vlm_enqueue max_size frame q =
     push frame (if size_q q \<ge> max_size then snd (snd (try_pop_value q)) else q)"

text \<open>A sequence of pushes through the admit path, oldest first.\<close>

definition vlm_enqueue_all ::
  "32 word \<Rightarrow> 'a list \<Rightarrow> 'a ThreadSafeQueue \<Rightarrow> 'a ThreadSafeQueue" where
  "vlm_enqueue_all max_size frames q = foldl (\<lambda>q' frame. vlm_enqueue max_size frame q') q frames"

text \<open>Lines 663--669: the mock frame built for one source of the batch.\<close>

definition vlm_frame_of :: "NvDsFrameMeta \<Rightarrow> VLMFrameData" where
  "vlm_frame_of frame_meta =
     \<lparr>width = 1920, height = 1080, timestamp = buf_pts frame_meta,
      source_id = meta_source_id frame_meta, frame_number = scast (frame_num frame_meta),
      format = ''RGB''\<rparr>"

text \<open>
  The admission test of line 661, \<^verbatim>\<open>vlm_frame_counter % vlm_frame_interval == 0\<close>, the
  interval widened to the counter's type.
\<close>

definition vlm_admit :: "64 word \<Rightarrow> 32 word \<Rightarrow> bool" where
  "vlm_admit counter interval = (counter mod ucast interval = 0)"

text \<open>
  What \<^verbatim>\<open>g_print\<close> writes at lines 678--679 after each push: the source id, the frame
  index and the queue size read back with \<^verbatim>\<open>size()\<close>.
\<close>

type_synonym enqueued_line = "32 word \<times> 32 word \<times> 32 word"

text \<open>
  An integer remainder by zero is undefined behaviour in C++ (a trap on the usual
  targets); it is the one way the block can fail.
\<close>

datatype fault = DivisionByZero

text \<open>
  The loop of lines 657--681 over \<^verbatim>\<open>batch_meta->frame_meta_list\<close>, the counter already
  incremented: the plugin state afterwards and the lines printed.
\<close>

fun vlm_sample_frames ::
  "GstDsExample \<Rightarrow> NvDsFrameMeta list \<Rightarrow> fault + (GstDsExample \<times> enqueued_line list)" where
  "vlm_sample_frames d [] = Inr (d, [])"
| "vlm_sample_frames d (frame_meta # l_frame) =
     (if vlm_frame_interval d = 0 then Inl DivisionByZero
      else if vlm_admit (vlm_frame_counter d) (vlm_frame_interval d) then
        (let q = vlm_enqueue (vlm_queue_max_size d) (vlm_frame_of frame_meta) (vlm_frame_queue d);
             line = (meta_source_id frame_meta, frame_num frame_meta, size_q q)
         in case vlm_sample_frames (d\<lparr>vlm_frame_queue := q\<rparr>) l_frame of
              Inl e \<Rightarrow> Inl e
            | Inr (d', printed) \<Rightarrow> Inr (d', line # printed))
      else vlm_sample_frames d l_frame)"

text \<open>
  Lines 647--682 of \<^verbatim>\<open>gst_dsexample_transform_ip\<close> for one batch: nothing when VLM is
  disabled; otherwise one increment of the counter, then the loop.
\<close>

definition vlm_sample_batch ::
  "GstDsExample \<Rightarrow> NvDsFrameMeta list \<Rightarrow> fault + (GstDsExample \<times> enqueued_line list)" where
  "vlm_sample_batch d batch =
     (if vlm_enabled d
      then vlm_sample_frames (d\<lparr>vlm_frame_counter := vlm_frame_counter d + 1\<rparr>) batch
      else Inr (d, []))"

text \<open>
  \<^verbatim>\<open>gst_dsexample_transform_ip\<close> as a whole, as far as the sampling state goes. The
  buffer reaches the block only if the CUDA device could be set, the buffer could be
  mapped, the surface's GPU is the configured one and the batch meta is present;
  otherwise the function returns \<^verbatim>\<open>GST_FLOW_ERROR\<close> before the block. These outcomes
  of the media pipeline are inputs here.
\<close>

datatype GstFlowReturn = GST_FLOW_OK | GST_FLOW_ERROR

record GstBuffer =
  cuda_device_set :: bool
  buffer_mapped :: bool
  gpu_id_matches :: bool
  batch_meta :: "NvDsFrameMeta list option"

definition gst_dsexample_transform_ip ::
  "GstDsExample \<Rightarrow> GstBuffer
   \<Rightarrow> fault + (GstFlowReturn \<times> GstDsExample \<times> enqueued_line list)" where
  "gst_dsexample_transform_ip d inbuf =
     (if \<not> cuda_device_set inbuf then Inr (GST_FLOW_ERROR, d, [])
      else if \<not> buffer_mapped inbuf then Inr (GST_FLOW_ERROR, d, [])
      else if \<not> gpu_id_matches inbuf then Inr (GST_FLOW_ERROR, d, [])
      else case batch_meta inbuf of
             None \<Rightarrow> Inr (GST_FLOW_ERROR, d, [])
           | Some frame_meta_list \<Rightarrow>
               (case vlm_sample_batch d frame_meta_list of
                  Inl e \<Rightarrow> Inl e
                | Inr (d', printed) \<Rightarrow> Inr (GST_FLOW_OK, d', printed)))"

text \<open>One call per batch, in order; the printed lines are kept per batch.\<close>

fun vlm_sample_batches ::
  "GstDsExample \<Rightarrow> NvDsFrameMeta list list
   \<Rightarrow> fault + (GstDsExample \<times> enqueued_line list list)" where
  "vlm_sample_batches d [] = Inr (d, [])"
| "vlm_sample_batches d (batch # batches) =
     (case vlm_sample_batch d batch of
        Inl e \<Rightarrow> Inl e
      | Inr (d', printed) \<Rightarrow>
          (case vlm_sample_batches d' batches of
             Inl e \<Rightarrow> Inl e
           | Inr (d'', rest) \<Rightarrow> Inr (d'', printed # rest)))"

section \<open>The admit path next to a running consumer\<close>

text \<open>
  The admit path of lines 671--677 takes the mutex three times: in \<^verbatim>\<open>size()\<close>, in
  \<^verbatim>\<open>try_pop(dropped)\<close> and in \<^verbatim>\<open>push\<close>. Between two of these calls the mutex is
  free, so another thread's call can run there. The producer's position inside the
  path is a program counter carrying the frame being admitted.
\<close>

datatype 'a admit_pc = AtSizeCheck 'a | AtTryPop 'a | AtPush 'a | AdmitDone

fun admit_step ::
  "32 word \<Rightarrow> 'a admit_pc \<times> 'a ThreadSafeQueue \<Rightarrow> 'a admit_pc \<times> 'a ThreadSafeQueue" where
  "admit_step max_size (AtSizeCheck frame, q) =
     (if size_q q \<ge> max_size then AtTryPop frame else AtPush frame, q)"
| "admit_step max_size (AtTryPop frame, q) = (AtPush frame, snd (snd (try_pop_value q)))"
| "admit_step max_size (AtPush frame, q) = (AdmitDone, push frame q)"
| "admit_step max_size (AdmitDone, q) = (AdmitDone, q)"

text \<open>
  The other threads' calls: the worker's \<^verbatim>\<open>wait_and_pop()\<close> (a blocked call stays
  blocked and may be scheduled again later), a \<^verbatim>\<open>try_pop()\<close>, a \<^verbatim>\<open>size()\<close>. What
  they return is recorded in call order.
\<close>

datatype actor = ProducerStep | WorkerWaitAndPop | OtherTryPop | OtherSize

datatype 'a seen = SawItem "'a option" | SawNothingYet | SawSize "32 word"

type_synonym 'a interleaved = "'a admit_pc \<times> 'a ThreadSafeQueue \<times> 'a seen list"

fun interleave_step :: "32 word \<Rightarrow> 'a interleaved \<Rightarrow> actor \<Rightarrow> 'a interleaved" where
  "interleave_step max_size (pc, q, seen) ProducerStep =
     (case admit_step max_size (pc, q) of (pc', q') \<Rightarrow> (pc', q', seen))"
| "interleave_step max_size (pc, q, seen) WorkerWaitAndPop =
     (case wait_and_pop q of
        (Blocked, q') \<Rightarrow> (pc, q', seen @ [SawNothingYet])
      | (Returned r, q') \<Rightarrow> (pc, q', seen @ [SawItem r]))"
| "interleave_step max_size (pc, q, seen) OtherTryPop =
     (case try_pop q of (r, q') \<Rightarrow> (pc, q', seen @ [SawItem r]))"
| "interleave_step max_size (pc, q, seen) OtherSize = (pc, q, seen @ [SawSize (size_q q)])"

definition interleave :: "32 word \<Rightarrow> actor list \<Rightarrow> 'a interleaved \<Rightarrow> 'a interleaved" where
  "interleave max_size schedule start = foldl (interleave_step max_size) start schedule"

text \<open>
  The bound that survives every interleaving: where the producer stands at the push
  there is room for one more item; anywhere else the queue is within the capacity.
\<close>

fun admit_room :: "32 word \<Rightarrow> 'a admit_pc \<times> 'a ThreadSafeQueue \<Rightarrow> bool" where
  "admit_room c (AtPush e, q) = (length (data_queue q) < unat c)"
| "admit_room c (pc, q) = (length (data_queue q) \<le> unat c)"

section \<open>The Redis client (redis\_client.h)\<close>

subsection \<open>Strings and the standard library\<close>

text \<open>\<^verbatim>\<open>std::to_string\<close> of an unsigned value, and of an \<^verbatim>\<open>int\<close> as \<^verbatim>\<open>%d\<close> prints it.\<close>

definition digit_char :: "nat \<Rightarrow> char" where
  "digit_char d = ''0123456789'' ! d"

function to_string :: "nat \<Rightarrow> string" where
  "to_string n = (if n < 10 then [digit_char n] else to_string (n div 10) @ [digit_char (n mod 10)])"
  by pat_completeness auto
termination
  by (relation "measure id") auto

declare to_string.simps [simp del]

definition int_to_string :: "int \<Rightarrow> string" where
  "int_to_string i = (if i < 0 then CHR ''-'' # to_string (nat (- i)) else to_string (nat i))"

text \<open>
  What a C function reads from \<^verbatim>\<open>s.c_str()\<close> when it is given no length: the
  characters before the first NUL byte.
\<close>

definition c_str :: "string \<Rightarrow> string" where
  "c_str s = takeWhile (\<lambda>c. c \<noteq> CHR 0x00) s"

text \<open>
  \<^verbatim>\<open>std::string::find\<close>: the first position of a character, or of a substring; \<open>None\<close>
  is \<^verbatim>\<open>npos\<close>.
\<close>

fun find_char :: "char \<Rightarrow> string \<Rightarrow> nat option" where
  "find_char c [] = None"
| "find_char c (x # xs) = (if x = c then Some 0 else map_option Suc (find_char c xs))"

fun str_find :: "string \<Rightarrow> string \<Rightarrow> nat option" where
  "str_find [] needle = (if needle = [] then Some 0 else None)"
| "str_find (x # xs) needle =
     (if take (length needle) (x # xs) = needle then Some 0
      else map_option Suc (str_find xs needle))"

text \<open>
  The two exceptions of \<^verbatim>\<open>std::stoull\<close>, and the function itself in base 10: leading
  white space is skipped, a sign is accepted, the longest run of digits is converted;
  no digit at all throws \<^verbatim>\<open>std::invalid_argument\<close>, a value beyond 64 bits throws
  \<^verbatim>\<open>std::out_of_range\<close>, a minus sign negates modulo \<open>2\<^sup>6\<^sup>4\<close>.
\<close>

datatype cpp_exception = invalid_argument | out_of_range

definition isspace :: "char \<Rightarrow> bool" where
  "isspace c = (c \<in> set [CHR '' '', CHR 0x09, CHR 0x0A, CHR 0x0B, CHR 0x0C, CHR 0x0D])"

definition isdigit :: "char \<Rightarrow> bool" where
  "isdigit c = (c \<in> set ''0123456789'')"

definition digits_value :: "string \<Rightarrow> nat" where
  "digits_value ds = foldl (\<lambda>a c. 10 * a + (of_char c - 48)) 0 ds"

definition stoull :: "string \<Rightarrow> cpp_exception + 64 word" where
  "stoull str =
     (let s = dropWhile isspace str;
          negative = (case s of c # _ \<Rightarrow> c = CHR ''-'' | [] \<Rightarrow> False);
          unsigned_part = (case s of c # r \<Rightarrow> if c = CHR ''-'' \<or> c = CHR ''+'' then r else s
                                   | [] \<Rightarrow> s);
          digits = takeWhile isdigit unsigned_part
      in if digits = [] then Inl invalid_argument
         else if digits_value digits \<ge> 2 ^ 64 then Inl out_of_range
         else Inr (if negative then - of_nat (digits_value digits)
                   else of_nat (digits_value digits)))"

text \<open>
  \<^verbatim>\<open>std::map<std::string, std::string>\<close>: the pairs in ascending key order, one per
  key. \<^verbatim>\<open>m[key] = value\<close> overwrites; construction from an initializer list inserts
  the pairs in turn and keeps the first of equal keys.
\<close>

type_synonym string_map = "(string \<times> string) list"

fun map_assign :: "string \<Rightarrow> string \<Rightarrow> string_map \<Rightarrow> string_map" where
  "map_assign key val [] = [(key, val)]"
| "map_assign key val ((k, v) # m) =
     (if key < k then (key, val) # (k, v) # m
      else if key = k then (k, val) # m
      else (k, v) # map_assign key val m)"



subsection \<open>Replies and their parsing\<close>

text \<open>
  A hiredis \<^verbatim>\<open>redisReply\<close> by its \<^verbatim>\<open>type\<close>; a null reply pointer is \<open>None\<close>.
  \<^verbatim>\<open>std::string(r->str, r->len)\<close> is the text of a string, status or error reply and
  empty for the others, whose \<^verbatim>\<open>str\<close> is null and \<^verbatim>\<open>len\<close> zero.
\<close>

datatype redisReply =
    REDIS_REPLY_STRING string
  | REDIS_REPLY_ARRAY "redisReply list"
  | REDIS_REPLY_INTEGER int
  | REDIS_REPLY_NIL
  | REDIS_REPLY_STATUS string
  | REDIS_REPLY_ERROR string

fun reply_str :: "redisReply \<Rightarrow> string" where
  "reply_str (REDIS_REPLY_STRING s) = s"
| "reply_str (REDIS_REPLY_STATUS s) = s"
| "reply_str (REDIS_REPLY_ERROR s) = s"
| "reply_str (REDIS_REPLY_ARRAY es) = []"
| "reply_str (REDIS_REPLY_INTEGER i) = []"
| "reply_str REDIS_REPLY_NIL = []"

record StreamMessage =
  msg_id :: string
  msg_fields :: string_map
  msg_timestamp :: "64 word"

text \<open>The default constructor \<^verbatim>\<open>StreamMessage()\<close>.\<close>

definition empty_message :: StreamMessage where
  "empty_message = \<lparr>msg_id = [], msg_fields = [], msg_timestamp = 0\<rparr>"

text \<open>
  The loop \<^verbatim>\<open>for (i = 0; i < elements; i += 2) if (i + 1 < elements) m[key] = value\<close>
  of \<^verbatim>\<open>parse_stream_message\<close> and of \<^verbatim>\<open>xinfo_stream\<close>: pairs of neighbours, a last
  element without partner ignored.
\<close>

fun parse_field_pairs :: "redisReply list \<Rightarrow> string_map \<Rightarrow> string_map" where
  "parse_field_pairs (key # val # rest) m =
     parse_field_pairs rest (map_assign (reply_str key) (reply_str val) m)"
| "parse_field_pairs [key] m = m"
| "parse_field_pairs [] m = m"

text \<open>
  \<^verbatim>\<open>parse_stream_message\<close>: \<^verbatim>\<open>[id, [field, value, ...]]\<close>. The timestamp is
  \<^verbatim>\<open>std::stoull\<close> of the id's text before its first dash; an exception of
  \<^verbatim>\<open>std::stoull\<close> is not caught.
\<close>

definition parse_message_id :: "redisReply \<Rightarrow> cpp_exception + (string \<times> 64 word)" where
  "parse_message_id r =
     (case r of
        REDIS_REPLY_STRING s \<Rightarrow>
          (case find_char CHR ''-'' s of
             Some dash_pos \<Rightarrow>
               (case stoull (take dash_pos s) of
                  Inl e \<Rightarrow> Inl e
                | Inr t \<Rightarrow> Inr (s, t))
           | None \<Rightarrow> Inr (s, 0))
      | _ \<Rightarrow> Inr ([], 0))"

definition parse_stream_message :: "redisReply option \<Rightarrow> cpp_exception + StreamMessage" where
  "parse_stream_message msg_reply =
     (case msg_reply of
        Some (REDIS_REPLY_ARRAY (id_reply # fields_reply # others)) \<Rightarrow>
          (case parse_message_id id_reply of
             Inl e \<Rightarrow> Inl e
           | Inr (i, t) \<Rightarrow>
               Inr \<lparr>msg_id = i,
                    msg_fields = (case fields_reply of
                                REDIS_REPLY_ARRAY fs \<Rightarrow> parse_field_pairs fs []
                              | _ \<Rightarrow> []),
                    msg_timestamp = t\<rparr>)
      | _ \<Rightarrow> Inr empty_message)"

text \<open>
  The loop shared by \<^verbatim>\<open>parse_xrange_reply\<close> and the inner loop of
  \<^verbatim>\<open>parse_xread_reply\<close>: parse each element, keep the messages with a non-empty id.
\<close>

fun parse_messages :: "redisReply list \<Rightarrow> cpp_exception + StreamMessage list" where
  "parse_messages [] = Inr []"
| "parse_messages (r # rs) =
     (case parse_stream_message (Some r) of
        Inl e \<Rightarrow> Inl e
      | Inr msg \<Rightarrow>
          (case parse_messages rs of
             Inl e \<Rightarrow> Inl e
           | Inr msgs \<Rightarrow> Inr (if msg_id msg \<noteq> [] then msg # msgs else msgs)))"

definition parse_xrange_reply :: "redisReply option \<Rightarrow> cpp_exception + StreamMessage list" where
  "parse_xrange_reply reply =
     (case reply of
        Some (REDIS_REPLY_ARRAY es) \<Rightarrow> parse_messages es
      | _ \<Rightarrow> Inr [])"

text \<open>\<^verbatim>\<open>parse_xread_reply\<close>: \<^verbatim>\<open>[[stream_name, [[id, [field, value, ...]], ...]]]\<close>.\<close>

fun parse_streams :: "redisReply list \<Rightarrow> cpp_exception + StreamMessage list" where
  "parse_streams [] = Inr []"
| "parse_streams (stream_reply # rest) =
     (case (case stream_reply of
              REDIS_REPLY_ARRAY (name # REDIS_REPLY_ARRAY ms # others) \<Rightarrow> parse_messages ms
            | _ \<Rightarrow> Inr []) of
        Inl e \<Rightarrow> Inl e
      | Inr msgs \<Rightarrow>
          (case parse_streams rest of
             Inl e \<Rightarrow> Inl e
           | Inr msgs' \<Rightarrow> Inr (msgs @ msgs')))"

definition parse_xread_reply :: "redisReply option \<Rightarrow> cpp_exception + StreamMessage list" where
  "parse_xread_reply reply =
     (case reply of
        Some (REDIS_REPLY_ARRAY es) \<Rightarrow> parse_streams es
      | _ \<Rightarrow> Inr [])"

subsection \<open>Connection and commands\<close>

text \<open>
  The members of \<^verbatim>\<open>RedisClient\<close>; \<open>has_context\<close> is \<^verbatim>\<open>context_ != nullptr\<close>.
\<close>

record RedisClient =
  host :: string
  port :: int
  password :: string
  has_context :: bool
  connected :: bool

text \<open>The constructor: no context, not connected.\<close>

definition new_client :: "string \<Rightarrow> int \<Rightarrow> string \<Rightarrow> RedisClient" where
  "new_client h p pw = \<lparr>host = h, port = p, password = pw, has_context = False, connected = False\<rparr>"

text \<open>
  The hiredis library and what lies behind it (network and server, of state \<open>'srv\<close>)
  are outside the program: \<^verbatim>\<open>redisConnect\<close> yields a null pointer, a context with
  \<^verbatim>\<open>err\<close> set, or a usable context; a command, given as its argument vector, yields a
  reply or the null pointer.
\<close>

datatype connect_result = ConnectNull | ConnectError | ConnectOk

record 'srv hiredis =
  redisConnect :: "string \<Rightarrow> int \<Rightarrow> 'srv \<Rightarrow> connect_result"
  redisCommandArgv :: "string list \<Rightarrow> 'srv \<Rightarrow> redisReply option \<times> 'srv"

text \<open>
  How a call can end other than by returning: an exception leaves it, or it reads
  through a null pointer (\<^verbatim>\<open>connect\<close> reads \<^verbatim>\<open>reply->type\<close> of the \<^verbatim>\<open>AUTH\<close> reply
  without a null check).
\<close>

datatype client_fault = Throws cpp_exception | NullPointerRead

type_synonym ('r, 'srv) client_result = "client_fault + ('r \<times> RedisClient \<times> 'srv)"

definition connect :: "'srv hiredis \<Rightarrow> RedisClient \<times> 'srv \<Rightarrow> (bool, 'srv) client_result" where
  "connect h w =
     (case w of (c, s) \<Rightarrow>
        if connected c then Inr (True, c, s)
        else
          (case redisConnect h (host c) (port c) s of
             ConnectNull \<Rightarrow> Inr (False, c\<lparr>has_context := False\<rparr>, s)
           | ConnectError \<Rightarrow> Inr (False, c\<lparr>has_context := False\<rparr>, s)
           | ConnectOk \<Rightarrow>
               if password c \<noteq> [] then
                 (case redisCommandArgv h [''AUTH'', password c] s of
                    (None, s') \<Rightarrow> Inl NullPointerRead
                  | (Some (REDIS_REPLY_ERROR e), s') \<Rightarrow> Inr (False, c\<lparr>has_context := False\<rparr>, s')
                  | (Some r, s') \<Rightarrow> Inr (True, c\<lparr>has_context := True, connected := True\<rparr>, s'))
               else Inr (True, c\<lparr>has_context := True, connected := True\<rparr>, s)))"

definition disconnect :: "RedisClient \<Rightarrow> RedisClient" where
  "disconnect c = c\<lparr>has_context := False, connected := False\<rparr>"

definition is_connected :: "RedisClient \<Rightarrow> bool" where
  "is_connected c = (connected c \<and> has_context c)"

definition ensure_connected :: "'srv hiredis \<Rightarrow> RedisClient \<times> 'srv \<Rightarrow> (bool, 'srv) client_result" where
  "ensure_connected h w =
     (case w of (c, s) \<Rightarrow> if \<not> is_connected c then connect h w else Inr (True, c, s))"

text \<open>
  The frame every operation shares: \<^verbatim>\<open>if (!ensure_connected()) return <failed>;\<close>,
  then one command and the reading of its reply. An exception thrown while the reply
  is read leaves the operation. hiredis reads through the context pointer it is given,
  so a command on a null context (\<^verbatim>\<open>connect\<close> returns true on the flag alone) is a
  null-pointer read.
\<close>

definition command ::
  "'srv hiredis \<Rightarrow> RedisClient \<times> 'srv \<Rightarrow> 'r \<Rightarrow> string list
   \<Rightarrow> (redisReply option \<Rightarrow> cpp_exception + 'r) \<Rightarrow> ('r, 'srv) client_result" where
  "command h w failed argv read_reply =
     (case ensure_connected h w of
        Inl f \<Rightarrow> Inl f
      | Inr (False, c, s) \<Rightarrow> Inr (failed, c, s)
      | Inr (True, c, s) \<Rightarrow>
          if \<not> has_context c then Inl NullPointerRead
          else
            (case redisCommandArgv h argv s of
               (reply, s') \<Rightarrow>
                 (case read_reply reply of
                    Inl e \<Rightarrow> Inl (Throws e)
                  | Inr r \<Rightarrow> Inr (r, c, s'))))"

text \<open>
  \<^verbatim>\<open>xadd\<close> collects its arguments as strings and hands hiredis the \<^verbatim>\<open>c_str()\<close>
  pointer of each, with no array of lengths (\<^verbatim>\<open>argvlen\<close> is \<^verbatim>\<open>nullptr\<close>): hiredis
  measures every argument with \<^verbatim>\<open>strlen\<close>, so each one is sent up to its first NUL
  byte. The other operations format their command from names (stream, group, consumer,
  ids), which are taken here to hold no NUL byte.
\<close>

definition xadd ::
  "'srv hiredis \<Rightarrow> string \<Rightarrow> string_map \<Rightarrow> RedisClient \<times> 'srv \<Rightarrow> (string, 'srv) client_result" where
  "xadd h stream_key flds w =
     command h w []
       (map c_str ([''XADD'', stream_key, ''*''] @ concat (map (\<lambda>(key, val). [key, val]) flds)))
       (\<lambda>reply. Inr (case reply of Some (REDIS_REPLY_STRING s) \<Rightarrow> s | _ \<Rightarrow> []))"

definition xread ::
  "'srv hiredis \<Rightarrow> string \<Rightarrow> string \<Rightarrow> int \<Rightarrow> int \<Rightarrow> RedisClient \<times> 'srv
   \<Rightarrow> (StreamMessage list, 'srv) client_result" where
  "xread h stream_key start_id count block_ms w =
     command h w []
       (if block_ms > 0
        then [''XREAD'', ''BLOCK'', int_to_string block_ms, ''COUNT'', int_to_string count,
              ''STREAMS'', stream_key, start_id]
        else [''XREAD'', ''COUNT'', int_to_string count, ''STREAMS'', stream_key, start_id])
       parse_xread_reply"

definition xrange ::
  "'srv hiredis \<Rightarrow> string \<Rightarrow> string \<Rightarrow> string \<Rightarrow> int \<Rightarrow> RedisClient \<times> 'srv
   \<Rightarrow> (StreamMessage list, 'srv) client_result" where
  "xrange h stream_key start end count w =
     command h w []
       (if count > 0
        then [''XRANGE'', stream_key, start, end, ''COUNT'', int_to_string count]
        else [''XRANGE'', stream_key, start, end])
       parse_xrange_reply"

definition xgroup_create ::
  "'srv hiredis \<Rightarrow> string \<Rightarrow> string \<Rightarrow> string \<Rightarrow> RedisClient \<times> 'srv
   \<Rightarrow> (bool, 'srv) client_result" where
  "xgroup_create h stream_key group_name start_id w =
     command h w False
       [''XGROUP'', ''CREATE'', stream_key, group_name, start_id, ''MKSTREAM'']
       (\<lambda>reply. Inr (case reply of
                        Some (REDIS_REPLY_STATUS s) \<Rightarrow> True
                      | Some (REDIS_REPLY_ERROR error) \<Rightarrow> str_find error ''BUSYGROUP'' \<noteq> None
                      | _ \<Rightarrow> False))"

definition xreadgroup ::
  "'srv hiredis \<Rightarrow> string \<Rightarrow> string \<Rightarrow> string \<Rightarrow> int \<Rightarrow> int \<Rightarrow> RedisClient \<times> 'srv
   \<Rightarrow> (StreamMessage list, 'srv) client_result" where
  "xreadgroup h group_name consumer stream_key count block_ms w =
     command h w []
       (if block_ms > 0
        then [''XREADGROUP'', ''GROUP'', group_name, consumer, ''BLOCK'', int_to_string block_ms,
              ''COUNT'', int_to_string count, ''STREAMS'', stream_key, ''>'']
        else [''XREADGROUP'', ''GROUP'', group_name, consumer,
              ''COUNT'', int_to_string count, ''STREAMS'', stream_key, ''>''])
       parse_xread_reply"

definition xack ::
  "'srv hiredis \<Rightarrow> string \<Rightarrow> string \<Rightarrow> string \<Rightarrow> RedisClient \<times> 'srv
   \<Rightarrow> (bool, 'srv) client_result" where
  "xack h stream_key group_name message_id w =
     command h w False
       [''XACK'', stream_key, group_name, message_id]
       (\<lambda>reply. Inr (case reply of Some (REDIS_REPLY_INTEGER n) \<Rightarrow> n > 0 | _ \<Rightarrow> False))"

definition xinfo_stream ::
  "'srv hiredis \<Rightarrow> string \<Rightarrow> RedisClient \<times> 'srv \<Rightarrow> (string_map, 'srv) client_result" where
  "xinfo_stream h stream_key w =
     command h w []
       [''XINFO'', ''STREAM'', stream_key]
       (\<lambda>reply. Inr (case reply of
                        Some (REDIS_REPLY_ARRAY es) \<Rightarrow> parse_field_pairs es []
                      | _ \<Rightarrow> []))"

subsection \<open>The stream manager\<close>

record VLMRedisStreamManager =
  redis_client :: RedisClient
  vlm_stream :: string
  frame_stream :: string
  consumer_group :: string
  consumer_name :: string



definition ack_message ::
  "'srv hiredis \<Rightarrow> string \<Rightarrow> string \<Rightarrow> VLMRedisStreamManager \<times> 'srv
   \<Rightarrow> client_fault + (bool \<times> VLMRedisStreamManager \<times> 'srv)" where
  "ack_message h stream message_id w =
     (case w of (m, s) \<Rightarrow>
        (case xack h stream (consumer_group m) message_id (redis_client m, s) of
           Inl f \<Rightarrow> Inl f
         | Inr (b, c, s') \<Rightarrow> Inr (b, m\<lparr>redis_client := c\<rparr>, s')))"

subsection \<open>The log server\<close>







text \<open>
  Two further stand-ins for what lies behind hiredis, for running the client on
  concrete inputs: a server that keeps the argument vectors it receives and answers
  each with the given reply, and one that cannot be connected to.
\<close>

definition recording_server :: "redisReply option \<Rightarrow> string list list hiredis" where
  "recording_server reply =
     \<lparr>redisConnect = (\<lambda>h p received. ConnectOk),
      redisCommandArgv = (\<lambda>argv received. (reply, received @ [argv]))\<rparr>"

definition unreachable_server :: "string list list hiredis" where
  "unreachable_server =
     \<lparr>redisConnect = (\<lambda>h p received. ConnectError),
      redisCommandArgv = (\<lambda>argv received. (None, received @ [argv]))\<rparr>"

section \<open>Termination and the waiting pop\<close>

lemma wait_and_pop_terminated:
  "is_terminated q \<Longrightarrow> wait_and_pop q = (Returned None, q)"
  by (simp add: wait_and_pop_def)

lemma wait_and_pop_front:
  "\<not> is_terminated q \<Longrightarrow> data_queue q = x # xs \<Longrightarrow>
   wait_and_pop q = (Returned (Some x), q\<lparr>data_queue := xs\<rparr>)"
  by (simp add: wait_and_pop_def)

lemma wait_and_pop_blocks:
  "\<not> is_terminated q \<Longrightarrow> data_queue q = [] \<Longrightarrow> wait_and_pop q = (Blocked, q)"
  by (simp add: wait_and_pop_def)

text \<open>
  Claim C1, as stated, at a terminated queue that still holds an item: the claim has
  \<^verbatim>\<open>wait_and_pop\<close> return the front item \<open>7\<close> there; the code returns the null
  pointer and leaves the item in the queue.
\<close>

theorem wait_and_pop_terminated_nonempty_counterexample:
  "fst (wait_and_pop \<lparr>data_queue = [7::nat], is_terminated = True\<rparr>) = Returned None
   \<and> \<not> (is_terminated \<lparr>data_queue = [7::nat], is_terminated = True\<rparr>
          \<and> data_queue \<lparr>data_queue = [7::nat], is_terminated = True\<rparr> = [])
   \<and> fst (wait_and_pop \<lparr>data_queue = [7::nat], is_terminated = True\<rparr>) \<noteq> Returned (Some 7)"
  by (simp add: wait_and_pop_def)

text \<open>
  Claim C1, amended: \<^verbatim>\<open>wait_and_pop\<close> returns none exactly when the queue has been
  terminated, whether or not items remain (they stay in the queue); when the queue is
  not terminated and holds at least one item it returns the front item and removes it;
  it blocks exactly when the queue is neither terminated nor non-empty; and after
  \<^verbatim>\<open>terminate\<close> it never blocks, returning none at once.
\<close>

theorem wait_and_pop_spec:
  "(fst (wait_and_pop q) = Returned None \<longleftrightarrow> is_terminated q)
   \<and> (\<not> is_terminated q \<longrightarrow> data_queue q = x # xs \<longrightarrow>
        wait_and_pop q = (Returned (Some x), q\<lparr>data_queue := xs\<rparr>))
   \<and> (fst (wait_and_pop q) = Blocked \<longleftrightarrow> \<not> is_terminated q \<and> data_queue q = [])
   \<and> (is_terminated q \<longrightarrow> snd (wait_and_pop q) = q)
   \<and> wait_and_pop (terminate q) = (Returned None, terminate q)
   \<and> wait_and_pop (terminate (terminate q)) = (Returned None, terminate q)"
  by (cases "data_queue q") (auto simp: wait_and_pop_def terminate_def)

theorem wait_and_pop_spec_witness:
  "\<not> is_terminated \<lparr>data_queue = [7::nat, 8], is_terminated = False\<rparr>
   \<and> data_queue \<lparr>data_queue = [7::nat, 8], is_terminated = False\<rparr> = 7 # [8]
   \<and> wait_and_pop \<lparr>data_queue = [7::nat, 8], is_terminated = False\<rparr>
       = (Returned (Some 7), \<lparr>data_queue = [8], is_terminated = False\<rparr>)
   \<and> is_terminated (terminate \<lparr>data_queue = [7::nat, 8], is_terminated = False\<rparr>)
   \<and> snd (wait_and_pop (terminate \<lparr>data_queue = [7::nat, 8], is_terminated = False\<rparr>))
       = \<lparr>data_queue = [7::nat, 8], is_terminated = True\<rparr>"
  using wait_and_pop_spec [of "\<lparr>data_queue = [7::nat, 8], is_terminated = False\<rparr>" 7 "[8]"]
    wait_and_pop_spec [of "terminate \<lparr>data_queue = [7::nat, 8], is_terminated = False\<rparr>" 7 "[8]"]
  by (simp add: terminate_def)


section \<open>Eviction, capacity and FIFO order of the admit path\<close>

lemma size_q_ge_iff:
  assumes "length (data_queue q) \<le> unat c"
  shows "(c \<le> size_q q) = (unat c \<le> length (data_queue q))"
proof -
  have "unat c < 2 ^ 32"
    using unsigned_less [of c] by simp
  with assms have "length (data_queue q) < 2 ^ 32"
    by simp
  hence "unat (of_nat (length (data_queue q)) :: 32 word) = length (data_queue q)"
    by (simp add: unsigned_of_nat take_bit_nat_eq_self)
  thus ?thesis by (simp add: size_q_def word_le_nat_alt)
qed

lemma size_q_le:
  assumes "length (data_queue q) \<le> unat c"
  shows "size_q q \<le> c"
proof -
  have "unat c < 2 ^ 32"
    using unsigned_less [of c] by simp
  with assms have "length (data_queue q) < 2 ^ 32"
    by simp
  hence "unat (of_nat (length (data_queue q)) :: 32 word) = length (data_queue q)"
    by (simp add: unsigned_of_nat take_bit_nat_eq_self)
  with assms show ?thesis
    by (simp add: size_q_def word_le_nat_alt)
qed

lemma vlm_enqueue_items:
  assumes "length (data_queue q) \<le> unat c" and "c \<noteq> 0"
  shows "data_queue (vlm_enqueue c e q)
         = drop (Suc (length (data_queue q)) - unat c) (data_queue q @ [e])"
proof (cases "unat c \<le> length (data_queue q)")
  case True
  with assms(1) have len: "length (data_queue q) = unat c" by simp
  from assms(2) have "0 < unat c" by (simp add: unat_gt_0)
  with len obtain x xs where "data_queue q = x # xs" by (cases "data_queue q") auto
  with True len assms(1) show ?thesis
    by (simp add: vlm_enqueue_def size_q_ge_iff push_def try_pop_value_def)
next
  case False
  with assms(1) show ?thesis
    by (simp add: vlm_enqueue_def size_q_ge_iff push_def)
qed

lemma vlm_enqueue_terminated: "is_terminated (vlm_enqueue c e q) = is_terminated q"
  by (cases "data_queue q") (simp_all add: vlm_enqueue_def push_def try_pop_value_def)

lemma vlm_enqueue_length:
  assumes "length (data_queue q) \<le> unat c" and "c \<noteq> 0"
  shows "length (data_queue (vlm_enqueue c e q)) \<le> unat c"
  using assms by (simp add: vlm_enqueue_items)

lemma vlm_enqueue_all_items:
  assumes "length (data_queue q) \<le> unat c" and "c \<noteq> 0"
  shows "data_queue (vlm_enqueue_all c es q)
         = drop (length (data_queue q) + length es - unat c) (data_queue q @ es)"
  using assms(1)
proof (induction es arbitrary: q)
  case Nil
  then show ?case by (simp add: vlm_enqueue_all_def)
next
  case (Cons e es)
  have step: "length (data_queue (vlm_enqueue c e q)) \<le> unat c"
    using Cons.prems assms(2) by (rule vlm_enqueue_length)
  have "data_queue (vlm_enqueue_all c (e # es) q)
        = data_queue (vlm_enqueue_all c es (vlm_enqueue c e q))"
    by (simp add: vlm_enqueue_all_def)
  also have "\<dots> = drop (length (data_queue (vlm_enqueue c e q)) + length es - unat c)
                    (data_queue (vlm_enqueue c e q) @ es)"
    using step by (rule Cons.IH)
  also have "\<dots> = drop (length (data_queue q) + length (e # es) - unat c) (data_queue q @ e # es)"
  proof (cases "length (data_queue q) < unat c")
    case True
    then show ?thesis
      using Cons.prems assms(2) by (simp add: vlm_enqueue_items)
  next
    case False
    with Cons.prems have len: "length (data_queue q) = unat c" by simp
    from assms(2) have "0 < unat c" by (simp add: unat_gt_0)
    with len obtain x xs where xs: "data_queue q = x # xs" by (cases "data_queue q") auto
    from len xs have "data_queue (vlm_enqueue c e q) = xs @ [e]"
      using Cons.prems assms(2) by (simp add: vlm_enqueue_items)
    moreover from len xs have "length xs < unat c" by simp
    ultimately show ?thesis
      using len xs by (simp add: Suc_diff_le)
  qed
  finally show ?case .
qed


lemma vlm_enqueue_all_terminated:
  "is_terminated (vlm_enqueue_all c es q) = is_terminated q"
  unfolding vlm_enqueue_all_def
  by (induction es arbitrary: q) (simp_all add: vlm_enqueue_terminated)

lemma vlm_enqueue_all_length:
  assumes "length (data_queue q) \<le> unat c" and "c \<noteq> 0"
  shows "length (data_queue (vlm_enqueue_all c es q)) \<le> unat c"
  using assms by (simp add: vlm_enqueue_all_items)

lemma wait_and_pop_times_drains:
  assumes "\<not> is_terminated q" and "data_queue q = xs"
  shows "wait_and_pop_times (length xs) q
         = (map (\<lambda>x. Returned (Some x)) xs, q\<lparr>data_queue := []\<rparr>)"
  using assms
proof (induction xs arbitrary: q)
  case Nil
  then show ?case by simp
next
  case (Cons x xs)
  have "wait_and_pop q = (Returned (Some x), q\<lparr>data_queue := xs\<rparr>)"
    using Cons.prems by (rule wait_and_pop_front)
  moreover have "wait_and_pop_times (length xs) (q\<lparr>data_queue := xs\<rparr>)
                 = (map (\<lambda>x. Returned (Some x)) xs, q\<lparr>data_queue := xs, data_queue := []\<rparr>)"
    using Cons.prems by (intro Cons.IH) simp_all
  ultimately show ?case by simp
qed

lemma try_pop_times_drains:
  assumes "data_queue q = xs"
  shows "try_pop_times (length xs) q = (map Some xs, q\<lparr>data_queue := []\<rparr>)"
  using assms
proof (induction xs arbitrary: q)
  case Nil
  then show ?case by simp
next
  case (Cons x xs)
  have "try_pop q = (Some x, q\<lparr>data_queue := xs\<rparr>)"
    using Cons.prems by (simp add: try_pop_def)
  moreover have "try_pop_times (length xs) (q\<lparr>data_queue := xs\<rparr>)
                 = (map Some xs, q\<lparr>data_queue := xs, data_queue := []\<rparr>)"
    by (intro Cons.IH) simp
  ultimately show ?case by simp
qed

lemma word32_one_le_iff: "(1 \<le> c) = (c \<noteq> 0)" for c :: "32 word"
proof -
  have "(1 \<le> c) = (0 < unat c)"
    by (simp add: word_le_nat_alt Suc_le_eq)
  also have "\<dots> = (c \<noteq> 0)"
    by (rule unat_gt_0)
  finally show ?thesis .
qed

text \<open>
  Claim C3: through the admit path (drop the oldest when full, then push) into a fresh
  queue of capacity \<open>c\<close>, with no consumer running, \<open>n\<close> pushes leave exactly the last
  \<open>min n c\<close> items in push order, and that many waiting pops return them in this order
  and empty the queue; \<open>c + 1\<close> pushes leave \<open>e\<^sub>2 \<dots> e\<^sub>c\<^sub>+\<^sub>1\<close>; without overflow the
  popped order is the push order; a further pop blocks until \<^verbatim>\<open>terminate\<close> releases it
  with none. The capacity is at least 1, as the registered range of the
  \<^verbatim>\<open>vlm-queue-size\<close> property has it.
\<close>

theorem vlm_enqueue_all_keeps_newest:
  assumes "1 \<le> c"
  shows "data_queue (vlm_enqueue_all c es new_queue) = drop (length es - unat c) es
     \<and> length (data_queue (vlm_enqueue_all c es new_queue)) = min (length es) (unat c)
     \<and> wait_and_pop_times (min (length es) (unat c)) (vlm_enqueue_all c es new_queue)
         = (map (\<lambda>e. Returned (Some e)) (drop (length es - unat c) es), new_queue)
     \<and> (length es = Suc (unat c) \<longrightarrow> data_queue (vlm_enqueue_all c es new_queue) = tl es)
     \<and> (length es \<le> unat c \<longrightarrow>
          wait_and_pop_times (length es) (vlm_enqueue_all c es new_queue)
          = (map (\<lambda>e. Returned (Some e)) es, new_queue))
     \<and> wait_and_pop (snd (wait_and_pop_times (min (length es) (unat c))
                            (vlm_enqueue_all c es new_queue))) = (Blocked, new_queue)
     \<and> wait_and_pop (terminate (snd (wait_and_pop_times (min (length es) (unat c))
                            (vlm_enqueue_all c es new_queue)))) = (Returned None, terminate new_queue)"
proof -
  let ?q = "vlm_enqueue_all c es new_queue"
  from assms have c0: "c \<noteq> 0" by (simp add: word32_one_le_iff)
  have empty: "length (data_queue (new_queue :: 'a ThreadSafeQueue)) \<le> unat c"
    by (simp add: new_queue_def)
  have items: "data_queue ?q = drop (length es - unat c) es"
    using vlm_enqueue_all_items [OF empty c0, of es] by (simp add: new_queue_def)
  hence len: "length (data_queue ?q) = min (length es) (unat c)"
    by simp
  have live: "\<not> is_terminated ?q"
    by (simp add: vlm_enqueue_all_terminated new_queue_def)
  have rest: "?q\<lparr>data_queue := []\<rparr> = new_queue"
    using live by (simp add: new_queue_def)
  have pops: "wait_and_pop_times (min (length es) (unat c)) ?q
              = (map (\<lambda>e. Returned (Some e)) (drop (length es - unat c) es), new_queue)"
    using wait_and_pop_times_drains [OF live items] len items rest by simp
  have tl: "length es = Suc (unat c) \<longrightarrow> data_queue ?q = tl es"
    using items by (simp add: drop_Suc)
  have fifo: "length es \<le> unat c \<longrightarrow>
      wait_and_pop_times (length es) ?q = (map (\<lambda>e. Returned (Some e)) es, new_queue)"
    using pops by (auto simp: min_def)
  have after: "snd (wait_and_pop_times (min (length es) (unat c)) ?q) = new_queue"
    by (simp only: pops snd_conv)
  have blocks: "wait_and_pop (snd (wait_and_pop_times (min (length es) (unat c)) ?q))
                = (Blocked, new_queue)"
    unfolding after by (simp add: wait_and_pop_def new_queue_def)
  have unblocks: "wait_and_pop (terminate (snd (wait_and_pop_times (min (length es) (unat c)) ?q)))
                  = (Returned None, terminate new_queue)"
    unfolding after by (simp add: wait_and_pop_def terminate_def)
  show ?thesis
    by (intro conjI items len pops tl fifo blocks unblocks)
qed

text \<open>
  The end-to-end scenario of the spec: 150 items into a queue of capacity 100 leave
  items 51 to 150; 100 waiting pops return them in order.
\<close>

text \<open>
  The end-to-end scenario of the spec: 150 items into a queue of capacity 100 leave
  items 51 to 150; 100 waiting pops return them in order.
\<close>

theorem vlm_enqueue_all_keeps_newest_witness:
  "(1 :: 32 word) \<le> 100
   \<and> data_queue (vlm_enqueue_all 100 [1 ..< 151] new_queue) = [51 ..< 151]
   \<and> length (data_queue (vlm_enqueue_all 100 [1 ..< 151] new_queue)) = 100
   \<and> wait_and_pop_times 100 (vlm_enqueue_all 100 [1 ..< 151] new_queue)
       = (map (\<lambda>e. Returned (Some e)) [51 ..< 151], new_queue)"
proof -
  have h: "(1 :: 32 word) \<le> 100" by simp
  have a1: "length [1 ..< 151] = 150" by simp
  have a2: "unat (100 :: 32 word) = 100" by simp
  have a3: "drop (150 - 100) [1 ..< 151] = [51 ..< 151]" by (simp only: drop_upt) simp
  have a4: "min (150::nat) 100 = 100" by simp
  note t = vlm_enqueue_all_keeps_newest [OF h, of "[1 ..< 151]", unfolded a1 a2 a3 a4]
  from t h show ?thesis by blast
qed
text \<open>
  The lower bound on the capacity is needed: at capacity 0, which the range of the
  property excludes, the size check always holds, nothing can be dropped from an
  empty queue, and the push still takes place.
\<close>

lemma vlm_enqueue_capacity_zero:
  "data_queue (vlm_enqueue 0 e new_queue) = [e]"
  by (simp add: vlm_enqueue_def new_queue_def size_q_def try_pop_value_def push_def)

section \<open>Termination leaves the queued items alone\<close>

text \<open>
  Claim C10: \<^verbatim>\<open>terminate\<close> changes only the flag. The items and the size are what they
  were; the non-blocking pop returns the same item as before the call and leaves the
  same rest; popping once per queued item after \<^verbatim>\<open>terminate\<close> returns the queued items
  in their FIFO order; and a pop from the emptied queue returns nothing.
\<close>

theorem terminate_keeps_items:
  "data_queue (terminate q) = data_queue q
   \<and> size_q (terminate q) = size_q q
   \<and> empty_q (terminate q) = empty_q q
   \<and> is_terminated (terminate q)
   \<and> fst (try_pop (terminate q)) = fst (try_pop q)
   \<and> snd (try_pop (terminate q)) = terminate (snd (try_pop q))
   \<and> try_pop_value (terminate q)
       = (fst (try_pop_value q), fst (snd (try_pop_value q)), terminate (snd (snd (try_pop_value q))))
   \<and> try_pop_times (length (data_queue q)) (terminate q)
       = (map Some (data_queue q), terminate (q\<lparr>data_queue := []\<rparr>))
   \<and> fst (try_pop_times (length (data_queue q)) (terminate q))
       = fst (try_pop_times (length (data_queue q)) q)
   \<and> fst (try_pop (snd (try_pop_times (length (data_queue q)) (terminate q)))) = None"
proof -
  have items: "data_queue (terminate q) = data_queue q"
    by (simp add: terminate_def)
  have pops: "try_pop_times (length (data_queue q)) (terminate q)
              = (map Some (data_queue q), terminate (q\<lparr>data_queue := []\<rparr>))"
    using try_pop_times_drains [OF items] by (simp add: terminate_def)
  have before: "try_pop_times (length (data_queue q)) q
                = (map Some (data_queue q), q\<lparr>data_queue := []\<rparr>)"
    by (rule try_pop_times_drains) simp
  have one: "fst (try_pop (terminate q)) = fst (try_pop q)
             \<and> snd (try_pop (terminate q)) = terminate (snd (try_pop q))"
    by (cases "data_queue q") (simp_all add: try_pop_def terminate_def)
  have val: "try_pop_value (terminate q)
       = (fst (try_pop_value q), fst (snd (try_pop_value q)), terminate (snd (snd (try_pop_value q))))"
    by (cases "data_queue q") (simp_all add: try_pop_value_def terminate_def)
  have size: "size_q (terminate q) = size_q q"
    by (simp add: size_q_def items)
  have empty: "empty_q (terminate q) = empty_q q"
    by (simp add: empty_q_def items)
  have flag: "is_terminated (terminate q)"
    by (simp add: terminate_def)
  have same: "fst (try_pop_times (length (data_queue q)) (terminate q))
              = fst (try_pop_times (length (data_queue q)) q)"
    by (simp only: pops before fst_conv)
  have last: "fst (try_pop (snd (try_pop_times (length (data_queue q)) (terminate q)))) = None"
    by (simp only: pops snd_conv) (simp add: try_pop_def terminate_def)
  show ?thesis
    by (intro conjI items size empty flag conjunct1 [OF one] conjunct2 [OF one] val pops same last)
qed

section \<open>The sampling cadence\<close>

lemma vlm_sample_frames_skipped:
  assumes "vlm_frame_interval d \<noteq> 0"
    and "\<not> vlm_admit (vlm_frame_counter d) (vlm_frame_interval d)"
  shows "vlm_sample_frames d l_frame = Inr (d, [])"
  using assms by (induction l_frame) simp_all

lemma vlm_sample_frames_admitted:
  assumes "vlm_frame_interval d \<noteq> 0"
    and "vlm_admit (vlm_frame_counter d) (vlm_frame_interval d)"
  shows "\<exists>printed. vlm_sample_frames d l_frame
           = Inr (d\<lparr>vlm_frame_queue := vlm_enqueue_all (vlm_queue_max_size d)
                       (map vlm_frame_of l_frame) (vlm_frame_queue d)\<rparr>, printed)
         \<and> map (\<lambda>(s, f, n). (s, f)) printed
           = map (\<lambda>m. (meta_source_id m, frame_num m)) l_frame"
  using assms
proof (induction l_frame arbitrary: d)
  case Nil
  then show ?case by (simp add: vlm_enqueue_all_def)
next
  case (Cons frame_meta l_frame)
  let ?q = "vlm_enqueue (vlm_queue_max_size d) (vlm_frame_of frame_meta) (vlm_frame_queue d)"
  let ?d = "d\<lparr>vlm_frame_queue := ?q\<rparr>"
  have "vlm_frame_interval ?d \<noteq> 0"
    and "vlm_admit (vlm_frame_counter ?d) (vlm_frame_interval ?d)"
    using Cons.prems by simp_all
  from Cons.IH [OF this] obtain printed where
    run: "vlm_sample_frames ?d l_frame
          = Inr (?d\<lparr>vlm_frame_queue := vlm_enqueue_all (vlm_queue_max_size ?d)
                       (map vlm_frame_of l_frame) (vlm_frame_queue ?d)\<rparr>, printed)"
    and lines: "map (\<lambda>(s, f, n). (s, f)) printed
                = map (\<lambda>m. (meta_source_id m, frame_num m)) l_frame"
    by blast
  have "vlm_sample_frames d (frame_meta # l_frame)
        = Inr (d\<lparr>vlm_frame_queue := vlm_enqueue_all (vlm_queue_max_size d)
                    (map vlm_frame_of (frame_meta # l_frame)) (vlm_frame_queue d)\<rparr>,
               (meta_source_id frame_meta, frame_num frame_meta, size_q ?q) # printed)"
    using Cons.prems run by (simp add: vlm_enqueue_all_def Let_def)
  with lines show ?case by simp
qed

lemma vlm_sample_batch_result:
  assumes "vlm_enabled d" and "vlm_frame_interval d \<noteq> 0"
  shows "\<exists>printed. vlm_sample_batch d batch
           = Inr (d\<lparr>vlm_frame_counter := vlm_frame_counter d + 1,
                     vlm_frame_queue :=
                       (if vlm_admit (vlm_frame_counter d + 1) (vlm_frame_interval d)
                        then vlm_enqueue_all (vlm_queue_max_size d) (map vlm_frame_of batch)
                               (vlm_frame_queue d)
                        else vlm_frame_queue d)\<rparr>, printed)
         \<and> map (\<lambda>(s, f, n). (s, f)) printed
           = (if vlm_admit (vlm_frame_counter d + 1) (vlm_frame_interval d)
              then map (\<lambda>m. (meta_source_id m, frame_num m)) batch else [])"
proof (cases "vlm_admit (vlm_frame_counter d + 1) (vlm_frame_interval d)")
  case True
  let ?d = "d\<lparr>vlm_frame_counter := vlm_frame_counter d + 1\<rparr>"
  have "vlm_frame_interval ?d \<noteq> 0"
    and "vlm_admit (vlm_frame_counter ?d) (vlm_frame_interval ?d)"
    using assms(2) True by simp_all
  from vlm_sample_frames_admitted [OF this, of batch] assms(1) True
  show ?thesis by (simp add: vlm_sample_batch_def)
next
  case False
  let ?d = "d\<lparr>vlm_frame_counter := vlm_frame_counter d + 1\<rparr>"
  have "vlm_frame_interval ?d \<noteq> 0"
    and "\<not> vlm_admit (vlm_frame_counter ?d) (vlm_frame_interval ?d)"
    using assms(2) False by simp_all
  from vlm_sample_frames_skipped [OF this, of batch] assms(1) False
  show ?thesis by (simp add: vlm_sample_batch_def)
qed

lemma vlm_sample_batches_result:
  assumes "vlm_enabled d" and "vlm_frame_interval d \<noteq> 0"
  shows "\<exists>d' printed. vlm_sample_batches d batches = Inr (d', printed)
         \<and> vlm_frame_counter d' = vlm_frame_counter d + of_nat (length batches)
         \<and> vlm_frame_interval d' = vlm_frame_interval d
         \<and> vlm_queue_max_size d' = vlm_queue_max_size d
         \<and> length printed = length batches
         \<and> (\<forall>i < length batches.
               map (\<lambda>(s, f, n). (s, f)) (printed ! i)
               = (if vlm_admit (vlm_frame_counter d + of_nat (Suc i)) (vlm_frame_interval d)
                  then map (\<lambda>m. (meta_source_id m, frame_num m)) (batches ! i) else []))"
  using assms
proof (induction batches arbitrary: d)
  case Nil
  then show ?case by simp
next
  case (Cons batch batches)
  from vlm_sample_batch_result [OF Cons.prems, of batch] obtain d1 p1 where
    first: "vlm_sample_batch d batch = Inr (d1, p1)"
    and d1: "d1 = d\<lparr>vlm_frame_counter := vlm_frame_counter d + 1,
                     vlm_frame_queue :=
                       (if vlm_admit (vlm_frame_counter d + 1) (vlm_frame_interval d)
                        then vlm_enqueue_all (vlm_queue_max_size d) (map vlm_frame_of batch)
                               (vlm_frame_queue d)
                        else vlm_frame_queue d)\<rparr>"
    and p1: "map (\<lambda>(s, f, n). (s, f)) p1
             = (if vlm_admit (vlm_frame_counter d + 1) (vlm_frame_interval d)
                then map (\<lambda>m. (meta_source_id m, frame_num m)) batch else [])"
    by blast
  have "vlm_enabled d1" and "vlm_frame_interval d1 \<noteq> 0"
    using Cons.prems d1 by simp_all
  from Cons.IH [OF this] obtain d' rest where
    run: "vlm_sample_batches d1 batches = Inr (d', rest)"
    and counter: "vlm_frame_counter d' = vlm_frame_counter d1 + of_nat (length batches)"
    and same: "vlm_frame_interval d' = vlm_frame_interval d1"
              "vlm_queue_max_size d' = vlm_queue_max_size d1"
    and len: "length rest = length batches"
    and each: "\<forall>i < length batches.
               map (\<lambda>(s, f, n). (s, f)) (rest ! i)
               = (if vlm_admit (vlm_frame_counter d1 + of_nat (Suc i)) (vlm_frame_interval d1)
                  then map (\<lambda>m. (meta_source_id m, frame_num m)) (batches ! i) else [])"
    by blast
  have whole: "vlm_sample_batches d (batch # batches) = Inr (d', p1 # rest)"
    using first run by simp
  have c1: "vlm_frame_counter d1 = vlm_frame_counter d + 1"
    and i1: "vlm_frame_interval d1 = vlm_frame_interval d"
    and m1: "vlm_queue_max_size d1 = vlm_queue_max_size d"
    using d1 by simp_all
  have nth: "map (\<lambda>(s, f, n). (s, f)) ((p1 # rest) ! i)
             = (if vlm_admit (vlm_frame_counter d + of_nat (Suc i)) (vlm_frame_interval d)
                then map (\<lambda>m. (meta_source_id m, frame_num m)) ((batch # batches) ! i) else [])"
    if "i < length (batch # batches)" for i
  proof (cases i)
    case 0
    with p1 show ?thesis by simp
  next
    case (Suc j)
    with that have "j < length batches" by simp
    with each have "map (\<lambda>(s, f, n). (s, f)) (rest ! j)
               = (if vlm_admit (vlm_frame_counter d1 + of_nat (Suc j)) (vlm_frame_interval d1)
                  then map (\<lambda>m. (meta_source_id m, frame_num m)) (batches ! j) else [])"
      by blast
    with Suc c1 i1 show ?thesis by (simp add: add.assoc)
  qed
  show ?case
    using whole counter same len nth c1 i1 m1 by (simp add: add.assoc)
qed

lemma vlm_admit_unat: "vlm_admit counter interval = (unat counter mod unat interval = 0)"
proof -
  have "(counter mod ucast interval = 0) = (unat (counter mod ucast interval) = 0)"
    by (simp add: unat_eq_0)
  also have "\<dots> = (unat counter mod unat (ucast interval :: 64 word) = 0)"
    by (simp add: unat_mod)
  also have "unat (ucast interval :: 64 word) = unat interval"
  proof -
    have "unat interval < 2 ^ 32"
      using unsigned_less [of interval] by simp
    hence "unat interval < 2 ^ 64"
      by simp
    thus ?thesis
      by (simp add: unsigned_ucast_eq take_bit_nat_eq_self)
  qed
  finally show ?thesis by (simp add: vlm_admit_def)
qed

lemma vlm_admit_30:
  assumes "1 \<le> k" and "k \<le> (60::nat)"
  shows "vlm_admit (of_nat k) 30 = (k = 30 \<or> k = 60)"
proof -
  from assms have "k < 2 ^ 64" by simp
  hence "unat (of_nat k :: 64 word) = k"
    by (simp add: unsigned_of_nat take_bit_nat_eq_self)
  hence "vlm_admit (of_nat k) 30 = (k mod 30 = 0)"
    by (simp add: vlm_admit_unat)
  also have "\<dots> = (k = 30 \<or> k = 60)"
    using assms by presburger
  finally show ?thesis .
qed

text \<open>
  Claim C2: with VLM enabled and an interval of at least 1, one batch increments the
  counter by exactly one, however many sources it holds; the batch is admitted exactly
  when the incremented counter is a multiple of the interval, and then one frame per
  source of the batch is built and enqueued, in order, and one line printed for each;
  otherwise the queue is untouched and nothing is printed. Over any sequence of
  batches the counter advances by the number of batches, and batch \<open>i\<close> (from 0) is
  sampled exactly when the counter value \<open>i + 1\<close> steps on is a multiple of the
  interval. With interval 30 the counter values 1 to 60 admit exactly 30 and 60.
\<close>

theorem vlm_sampling_cadence:
  assumes "vlm_enabled d" and "1 \<le> vlm_frame_interval d"
  shows "(\<exists>d' printed. vlm_sample_batch d batch = Inr (d', printed)
           \<and> vlm_frame_counter d' = vlm_frame_counter d + 1
           \<and> vlm_frame_queue d'
             = (if vlm_admit (vlm_frame_counter d + 1) (vlm_frame_interval d)
                then vlm_enqueue_all (vlm_queue_max_size d) (map vlm_frame_of batch)
                       (vlm_frame_queue d)
                else vlm_frame_queue d)
           \<and> map (\<lambda>(s, f, n). (s, f)) printed
             = (if vlm_admit (vlm_frame_counter d + 1) (vlm_frame_interval d)
                then map (\<lambda>m. (meta_source_id m, frame_num m)) batch else []))
     \<and> (\<exists>d' printed. vlm_sample_batches d batches = Inr (d', printed)
           \<and> vlm_frame_counter d' = vlm_frame_counter d + of_nat (length batches)
           \<and> length printed = length batches
           \<and> (\<forall>i < length batches.
                 map (\<lambda>(s, f, n). (s, f)) (printed ! i)
                 = (if vlm_admit (vlm_frame_counter d + of_nat (Suc i)) (vlm_frame_interval d)
                    then map (\<lambda>m. (meta_source_id m, frame_num m)) (batches ! i) else [])))
     \<and> (\<forall>k \<in> {1 .. 60}. vlm_admit (of_nat k) 30 = (k = 30 \<or> k = 60))"
proof -
  from assms(2) have n0: "vlm_frame_interval d \<noteq> 0"
    by (simp add: word32_one_le_iff)
  from vlm_sample_batch_result [OF assms(1) n0, of batch] obtain printed where
    one: "vlm_sample_batch d batch
          = Inr (d\<lparr>vlm_frame_counter := vlm_frame_counter d + 1,
                    vlm_frame_queue :=
                      (if vlm_admit (vlm_frame_counter d + 1) (vlm_frame_interval d)
                       then vlm_enqueue_all (vlm_queue_max_size d) (map vlm_frame_of batch)
                              (vlm_frame_queue d)
                       else vlm_frame_queue d)\<rparr>, printed)"
    and lines: "map (\<lambda>(s, f, n). (s, f)) printed
                = (if vlm_admit (vlm_frame_counter d + 1) (vlm_frame_interval d)
                   then map (\<lambda>m. (meta_source_id m, frame_num m)) batch else [])"
    by blast
  have single: "\<exists>d' printed. vlm_sample_batch d batch = Inr (d', printed)
           \<and> vlm_frame_counter d' = vlm_frame_counter d + 1
           \<and> vlm_frame_queue d'
             = (if vlm_admit (vlm_frame_counter d + 1) (vlm_frame_interval d)
                then vlm_enqueue_all (vlm_queue_max_size d) (map vlm_frame_of batch)
                       (vlm_frame_queue d)
                else vlm_frame_queue d)
           \<and> map (\<lambda>(s, f, n). (s, f)) printed
             = (if vlm_admit (vlm_frame_counter d + 1) (vlm_frame_interval d)
                then map (\<lambda>m. (meta_source_id m, frame_num m)) batch else [])"
    using one lines by (intro exI conjI) (assumption, simp_all)
  have many: "\<exists>d' printed. vlm_sample_batches d batches = Inr (d', printed)
           \<and> vlm_frame_counter d' = vlm_frame_counter d + of_nat (length batches)
           \<and> length printed = length batches
           \<and> (\<forall>i < length batches.
                 map (\<lambda>(s, f, n). (s, f)) (printed ! i)
                 = (if vlm_admit (vlm_frame_counter d + of_nat (Suc i)) (vlm_frame_interval d)
                    then map (\<lambda>m. (meta_source_id m, frame_num m)) (batches ! i) else []))"
    using vlm_sample_batches_result [OF assms(1) n0, of batches] by blast
  have thirty: "\<forall>k \<in> {1 .. 60}. vlm_admit (of_nat k) 30 = (k = 30 \<or> k = 60)"
    by (simp add: vlm_admit_30)
  show ?thesis
    by (intro conjI single many thirty)
qed

text \<open>
  The cadence of the spec's example, on the plugin as initialised (counter 0, interval
  30): 60 batches of two sources each; only the 30th and the 60th are sampled, both
  sources of each.
\<close>

theorem vlm_sampling_cadence_witness:
  "vlm_enabled gst_dsexample_init \<and> 1 \<le> vlm_frame_interval gst_dsexample_init
   \<and> (\<exists>d' printed.
         vlm_sample_batches gst_dsexample_init
           (replicate 60 [\<lparr>frame_num = 7, buf_pts = 0, meta_source_id = 0\<rparr>,
                          \<lparr>frame_num = 7, buf_pts = 0, meta_source_id = 1\<rparr>])
         = Inr (d', printed)
       \<and> vlm_frame_counter d' = 60
       \<and> map (map (\<lambda>(s, f, n). (s, f))) printed
         = replicate 29 [] @ [[(0, 7), (1, 7)]] @ replicate 29 [] @ [[(0, 7), (1, 7)]])"
proof -
  let ?batch = "[\<lparr>frame_num = 7, buf_pts = 0, meta_source_id = 0\<rparr>,
                 \<lparr>frame_num = 7, buf_pts = 0, meta_source_id = 1 :: 32 word\<rparr>]"
  let ?expected = "replicate 29 [] @ [[(0 :: 32 word, 7 :: 32 word), (1, 7)]]
                   @ replicate 29 [] @ [[(0, 7), (1, 7)]]"
  have h1: "vlm_enabled gst_dsexample_init"
    and h2: "1 \<le> vlm_frame_interval gst_dsexample_init"
    by (simp_all add: gst_dsexample_init_def)
  from vlm_sampling_cadence [OF h1 h2, of "[]" "replicate 60 ?batch"] obtain d' printed where
    run: "vlm_sample_batches gst_dsexample_init (replicate 60 ?batch) = Inr (d', printed)"
    and counter: "vlm_frame_counter d'
                  = vlm_frame_counter gst_dsexample_init + of_nat (length (replicate 60 ?batch))"
    and len: "length printed = length (replicate 60 ?batch)"
    and each: "\<forall>i < length (replicate 60 ?batch).
                 map (\<lambda>(s, f, n). (s, f)) (printed ! i)
                 = (if vlm_admit (vlm_frame_counter gst_dsexample_init + of_nat (Suc i))
                         (vlm_frame_interval gst_dsexample_init)
                    then map (\<lambda>m. (meta_source_id m, frame_num m)) (replicate 60 ?batch ! i)
                    else [])"
    by blast
  have c60: "vlm_frame_counter d' = 60"
    using counter by (simp add: gst_dsexample_init_def)
  have nth: "map (map (\<lambda>(s, f, n). (s, f))) printed ! i = ?expected ! i" if "i < 60" for i
  proof -
    from that each have "map (\<lambda>(s, f, n). (s, f)) (printed ! i)
        = (if vlm_admit (of_nat (Suc i)) 30 then [(0, 7), (1, 7)] else [])"
      by (simp add: gst_dsexample_init_def)
    also have "vlm_admit (of_nat (Suc i)) 30 = (Suc i = 30 \<or> Suc i = 60)"
      using that by (intro vlm_admit_30) simp_all
    finally have "map (\<lambda>(s, f, n). (s, f)) (printed ! i)
        = (if i = 29 \<or> i = 59 then [(0, 7), (1, 7)] else [])"
      by simp
    moreover have "?expected ! i = (if i = 29 \<or> i = 59 then [(0, 7), (1, 7)] else [])"
      using that by (auto simp: nth_append nth_Cons')
    ultimately show ?thesis
      using that len by simp
  qed
  have "map (map (\<lambda>(s, f, n). (s, f))) printed = ?expected"
    using len nth by (intro nth_equalityI) simp_all
  with run c60 h1 h2 show ?thesis by blast
qed

text \<open>
  A buffer that reaches the block is handled by it and reported as
  \<^verbatim>\<open>GST_FLOW_OK\<close>; one that does not leaves counter and queue as they were.
\<close>

lemma gst_dsexample_transform_ip_block:
  assumes "cuda_device_set inbuf" and "buffer_mapped inbuf" and "gpu_id_matches inbuf"
    and "batch_meta inbuf = Some batch"
  shows "gst_dsexample_transform_ip d inbuf
         = (case vlm_sample_batch d batch of
              Inl e \<Rightarrow> Inl e
            | Inr (d', printed) \<Rightarrow> Inr (GST_FLOW_OK, d', printed))"
  using assms by (simp add: gst_dsexample_transform_ip_def)

lemma gst_dsexample_transform_ip_error:
  assumes "\<not> cuda_device_set inbuf \<or> \<not> buffer_mapped inbuf \<or> \<not> gpu_id_matches inbuf
           \<or> batch_meta inbuf = None"
  shows "gst_dsexample_transform_ip d inbuf = Inr (GST_FLOW_ERROR, d, [])"
  using assms by (auto simp: gst_dsexample_transform_ip_def)

section \<open>The capacity bound\<close>

lemma vlm_sample_frames_capacity:
  assumes "vlm_frame_interval d \<noteq> 0" and "vlm_queue_max_size d \<noteq> 0"
    and "length (data_queue (vlm_frame_queue d)) \<le> unat (vlm_queue_max_size d)"
  shows "\<exists>q' printed. vlm_sample_frames d l_frame = Inr (d\<lparr>vlm_frame_queue := q'\<rparr>, printed)
         \<and> length (data_queue q') \<le> unat (vlm_queue_max_size d)
         \<and> (\<forall>line \<in> set printed. snd (snd line) \<le> vlm_queue_max_size d)"
  using assms
proof (induction l_frame arbitrary: d)
  case Nil
  have "vlm_sample_frames d [] = Inr (d\<lparr>vlm_frame_queue := vlm_frame_queue d\<rparr>, [])"
    by simp
  with Nil.prems(3) show ?case
    by (intro exI [of _ "vlm_frame_queue d"] exI [of _ "[]"]) simp
next
  case (Cons frame_meta l_frame)
  show ?case
  proof (cases "vlm_admit (vlm_frame_counter d) (vlm_frame_interval d)")
    case False
    from Cons.IH [OF Cons.prems] obtain q' printed where
      "vlm_sample_frames d l_frame = Inr (d\<lparr>vlm_frame_queue := q'\<rparr>, printed)"
      and "length (data_queue q') \<le> unat (vlm_queue_max_size d)"
      and "\<forall>line \<in> set printed. snd (snd line) \<le> vlm_queue_max_size d"
      by blast
    with False Cons.prems(1) show ?thesis
      by (intro exI [of _ q'] exI [of _ printed]) simp
  next
    case True
    let ?q = "vlm_enqueue (vlm_queue_max_size d) (vlm_frame_of frame_meta) (vlm_frame_queue d)"
    let ?d = "d\<lparr>vlm_frame_queue := ?q\<rparr>"
    have room: "length (data_queue ?q) \<le> unat (vlm_queue_max_size d)"
      using Cons.prems(3) Cons.prems(2) by (rule vlm_enqueue_length)
    hence size: "size_q ?q \<le> vlm_queue_max_size d"
      by (rule size_q_le)
    have "vlm_frame_interval ?d \<noteq> 0" and "vlm_queue_max_size ?d \<noteq> 0"
      and "length (data_queue (vlm_frame_queue ?d)) \<le> unat (vlm_queue_max_size ?d)"
      using Cons.prems room by simp_all
    from Cons.IH [OF this] obtain q' printed where
      run: "vlm_sample_frames ?d l_frame = Inr (?d\<lparr>vlm_frame_queue := q'\<rparr>, printed)"
      and len: "length (data_queue q') \<le> unat (vlm_queue_max_size d)"
      and lines: "\<forall>line \<in> set printed. snd (snd line) \<le> vlm_queue_max_size d"
      by auto
    have "vlm_sample_frames d (frame_meta # l_frame)
          = Inr (d\<lparr>vlm_frame_queue := q'\<rparr>,
                 (meta_source_id frame_meta, frame_num frame_meta, size_q ?q) # printed)"
      using True Cons.prems(1) run by (simp add: Let_def)
    with len lines size show ?thesis
      by (intro exI [of _ q']
            exI [of _ "(meta_source_id frame_meta, frame_num frame_meta, size_q ?q) # printed"])
         simp
  qed
qed

lemma vlm_sample_batches_capacity:
  assumes "vlm_enabled d" and "vlm_frame_interval d \<noteq> 0" and "vlm_queue_max_size d \<noteq> 0"
    and "length (data_queue (vlm_frame_queue d)) \<le> unat (vlm_queue_max_size d)"
  shows "\<exists>d' printed. vlm_sample_batches d batches = Inr (d', printed)
         \<and> length (data_queue (vlm_frame_queue d')) \<le> unat (vlm_queue_max_size d)
         \<and> (\<forall>line \<in> set (concat printed). snd (snd line) \<le> vlm_queue_max_size d)"
  using assms
proof (induction batches arbitrary: d)
  case Nil
  then show ?case by simp
next
  case (Cons batch batches)
  let ?d0 = "d\<lparr>vlm_frame_counter := vlm_frame_counter d + 1\<rparr>"
  have "vlm_frame_interval ?d0 \<noteq> 0" and "vlm_queue_max_size ?d0 \<noteq> 0"
    and "length (data_queue (vlm_frame_queue ?d0)) \<le> unat (vlm_queue_max_size ?d0)"
    using Cons.prems by simp_all
  from vlm_sample_frames_capacity [OF this, of batch] obtain q1 p1 where
    frames: "vlm_sample_frames ?d0 batch = Inr (?d0\<lparr>vlm_frame_queue := q1\<rparr>, p1)"
    and len1: "length (data_queue q1) \<le> unat (vlm_queue_max_size d)"
    and lines1: "\<forall>line \<in> set p1. snd (snd line) \<le> vlm_queue_max_size d"
    by auto
  let ?d1 = "?d0\<lparr>vlm_frame_queue := q1\<rparr>"
  have first: "vlm_sample_batch d batch = Inr (?d1, p1)"
    using Cons.prems(1) frames by (simp add: vlm_sample_batch_def)
  have "vlm_enabled ?d1" and "vlm_frame_interval ?d1 \<noteq> 0" and "vlm_queue_max_size ?d1 \<noteq> 0"
    and "length (data_queue (vlm_frame_queue ?d1)) \<le> unat (vlm_queue_max_size ?d1)"
    using Cons.prems len1 by simp_all
  from Cons.IH [OF this] obtain d' rest where
    run: "vlm_sample_batches ?d1 batches = Inr (d', rest)"
    and len: "length (data_queue (vlm_frame_queue d')) \<le> unat (vlm_queue_max_size d)"
    and lines: "\<forall>line \<in> set (concat rest). snd (snd line) \<le> vlm_queue_max_size d"
    by auto
  have "vlm_sample_batches d (batch # batches) = Inr (d', p1 # rest)"
    using first run by simp
  with len lines lines1 show ?case
    by (intro exI [of _ d'] exI [of _ "p1 # rest"]) auto
qed

text \<open>
  Claim C4: for every sequence of pushes through the admit path, the number of items
  is at most the capacity after every push, the capacity being at least 1 (the
  registered range of the property) and the queue within it before the first push,
  as the fresh queue is. The size that \<^verbatim>\<open>size()\<close> reports respects the bound as well;
  so does the plugin over any sequence of batches: the queue it ends with is within
  the capacity, and so is every size it prints after a push.
\<close>

theorem vlm_enqueue_capacity:
  assumes "1 \<le> c" and "length (data_queue q) \<le> unat c"
  shows "length (data_queue (vlm_enqueue c e q)) \<le> unat c
     \<and> size_q (vlm_enqueue c e q) \<le> c
     \<and> (\<forall>k \<le> length es. length (data_queue (vlm_enqueue_all c (take k es) q)) \<le> unat c
                          \<and> size_q (vlm_enqueue_all c (take k es) q) \<le> c)
     \<and> (\<forall>k \<le> length es. length (data_queue (vlm_enqueue_all c (take k es) new_queue)) \<le> unat c)
     \<and> (vlm_enabled d \<and> vlm_frame_interval d \<noteq> 0 \<and> vlm_queue_max_size d = c
          \<and> length (data_queue (vlm_frame_queue d)) \<le> unat c \<longrightarrow>
         (\<exists>d' printed. vlm_sample_batches d batches = Inr (d', printed)
            \<and> length (data_queue (vlm_frame_queue d')) \<le> unat c
            \<and> (\<forall>line \<in> set (concat printed). snd (snd line) \<le> c)))"
proof -
  from assms(1) have c0: "c \<noteq> 0" by (simp add: word32_one_le_iff)
  have one: "length (data_queue (vlm_enqueue c e q)) \<le> unat c"
    using assms(2) c0 by (rule vlm_enqueue_length)
  have many: "length (data_queue (vlm_enqueue_all c fs q)) \<le> unat c" for fs
    using assms(2) c0 by (rule vlm_enqueue_all_length)
  have fresh: "length (data_queue (vlm_enqueue_all c fs (new_queue :: 'a ThreadSafeQueue))) \<le> unat c" for fs
    by (rule vlm_enqueue_all_length) (simp_all add: new_queue_def c0)
  have plugin: "vlm_enabled d \<and> vlm_frame_interval d \<noteq> 0 \<and> vlm_queue_max_size d = c
          \<and> length (data_queue (vlm_frame_queue d)) \<le> unat c \<longrightarrow>
         (\<exists>d' printed. vlm_sample_batches d batches = Inr (d', printed)
            \<and> length (data_queue (vlm_frame_queue d')) \<le> unat c
            \<and> (\<forall>line \<in> set (concat printed). snd (snd line) \<le> c))"
    using vlm_sample_batches_capacity [of d batches] c0 by blast
  show ?thesis
    by (intro conjI allI impI one many fresh size_q_le plugin)
qed

theorem vlm_enqueue_capacity_witness:
  "(1 :: 32 word) \<le> 2
   \<and> length (data_queue \<lparr>data_queue = [10::nat, 20], is_terminated = False\<rparr>) \<le> unat (2 :: 32 word)
   \<and> length (data_queue (vlm_enqueue 2 30 \<lparr>data_queue = [10::nat, 20], is_terminated = False\<rparr>)) \<le> 2
   \<and> length (data_queue (vlm_enqueue_all 2 [30, 40, 50]
                \<lparr>data_queue = [10::nat, 20], is_terminated = False\<rparr>)) \<le> 2
   \<and> (\<exists>d' printed.
         vlm_sample_batches (gst_dsexample_init\<lparr>vlm_frame_interval := 1, vlm_queue_max_size := 2\<rparr>)
           (replicate 3 [\<lparr>frame_num = 7, buf_pts = 0, meta_source_id = 0\<rparr>]) = Inr (d', printed)
       \<and> length (data_queue (vlm_frame_queue d')) \<le> 2)"
proof -
  let ?q = "\<lparr>data_queue = [10::nat, 20], is_terminated = False\<rparr>"
  let ?d = "gst_dsexample_init\<lparr>vlm_frame_interval := 1, vlm_queue_max_size := 2\<rparr>"
  let ?batches = "replicate 3 [\<lparr>frame_num = 7, buf_pts = 0, meta_source_id = 0 :: 32 word\<rparr>]"
  have h1: "(1 :: 32 word) \<le> 2" by simp
  have h2: "length (data_queue ?q) \<le> unat (2 :: 32 word)" by simp
  note t = vlm_enqueue_capacity [OF h1 h2, of 30 "[30, 40, 50]" ?d ?batches]
  from t have one: "length (data_queue (vlm_enqueue 2 30 ?q)) \<le> unat (2 :: 32 word)"
    by (rule conjunct1)
  have "3 \<le> length [30::nat, 40, 50]" by simp
  with t have all: "length (data_queue (vlm_enqueue_all 2 (take 3 [30, 40, 50]) ?q)) \<le> unat (2 :: 32 word)"
    by blast
  have "vlm_enabled ?d \<and> vlm_frame_interval ?d \<noteq> 0 \<and> vlm_queue_max_size ?d = 2
        \<and> length (data_queue (vlm_frame_queue ?d)) \<le> unat (2 :: 32 word)"
    by (simp add: gst_dsexample_init_def new_queue_def)
  with t have "\<exists>d' printed. vlm_sample_batches ?d ?batches = Inr (d', printed)
            \<and> length (data_queue (vlm_frame_queue d')) \<le> unat (2 :: 32 word)"
    by blast
  with one all h1 h2 show ?thesis by simp
qed

lemma vlm_queue_size_range_init:
  "vlm_queue_size_range (vlm_queue_max_size gst_dsexample_init)"
  "vlm_frame_interval_range (vlm_frame_interval gst_dsexample_init)"
  by (simp_all add: vlm_queue_size_range_def vlm_frame_interval_range_def gst_dsexample_init_def)

lemma vlm_queue_size_range_positive: "vlm_queue_size_range c \<Longrightarrow> 1 \<le> c"
  by (simp add: vlm_queue_size_range_def)


section \<open>Atomicity of the admit path\<close>

text \<open>
  Claim C9, as stated, at capacity 2 with the queue holding 1 and 2 and the frame 3
  being admitted: the worker's pop runs after the producer's size check and before its
  push, while the producer stands at \<^verbatim>\<open>try_pop\<close>. The worker receives 1, the producer
  then drops 2 although the queue is no longer full, and the queue ends as just 3.
  Neither order in which the admit runs as a whole gives this outcome.
\<close>

theorem admit_not_atomic_counterexample:
  "interleave 2 [ProducerStep] (AtSizeCheck 3, \<lparr>data_queue = [1::nat, 2], is_terminated = False\<rparr>, [])
     = (AtTryPop 3, \<lparr>data_queue = [1, 2], is_terminated = False\<rparr>, [])
   \<and> interleave 2 [ProducerStep, WorkerWaitAndPop]
        (AtSizeCheck 3, \<lparr>data_queue = [1::nat, 2], is_terminated = False\<rparr>, [])
     = (AtTryPop 3, \<lparr>data_queue = [2], is_terminated = False\<rparr>, [SawItem (Some 1)])
   \<and> interleave 2 [ProducerStep, WorkerWaitAndPop, ProducerStep, ProducerStep]
        (AtSizeCheck 3, \<lparr>data_queue = [1::nat, 2], is_terminated = False\<rparr>, [])
     = (AdmitDone, \<lparr>data_queue = [3], is_terminated = False\<rparr>, [SawItem (Some 1)])
   \<and> interleave 2 [WorkerWaitAndPop, ProducerStep, ProducerStep, ProducerStep]
        (AtSizeCheck 3, \<lparr>data_queue = [1::nat, 2], is_terminated = False\<rparr>, [])
     = (AdmitDone, \<lparr>data_queue = [2, 3], is_terminated = False\<rparr>, [SawItem (Some 1)])
   \<and> interleave 2 [ProducerStep, ProducerStep, ProducerStep, WorkerWaitAndPop]
        (AtSizeCheck 3, \<lparr>data_queue = [1::nat, 2], is_terminated = False\<rparr>, [])
     = (AdmitDone, \<lparr>data_queue = [3], is_terminated = False\<rparr>, [SawItem (Some 2)])
   \<and> interleave 2 [ProducerStep, WorkerWaitAndPop, ProducerStep, ProducerStep]
        (AtSizeCheck 3, \<lparr>data_queue = [1::nat, 2], is_terminated = False\<rparr>, [])
     \<noteq> interleave 2 [WorkerWaitAndPop, ProducerStep, ProducerStep, ProducerStep]
        (AtSizeCheck 3, \<lparr>data_queue = [1::nat, 2], is_terminated = False\<rparr>, [])
   \<and> interleave 2 [ProducerStep, WorkerWaitAndPop, ProducerStep, ProducerStep]
        (AtSizeCheck 3, \<lparr>data_queue = [1::nat, 2], is_terminated = False\<rparr>, [])
     \<noteq> interleave 2 [ProducerStep, ProducerStep, ProducerStep, WorkerWaitAndPop]
        (AtSizeCheck 3, \<lparr>data_queue = [1::nat, 2], is_terminated = False\<rparr>, [])"
  by (simp add: interleave_def size_q_def try_pop_value_def push_def wait_and_pop_def
        word_le_nat_alt)

lemma admit_step_sequential:
  "admit_step c (admit_step c (admit_step c (AtSizeCheck e, q))) = (AdmitDone, vlm_enqueue c e q)"
  by (simp add: vlm_enqueue_def)

lemma try_pop_length: "length (data_queue (snd (try_pop q))) \<le> length (data_queue q)"
  by (cases "data_queue q") (simp_all add: try_pop_def)

lemma wait_and_pop_length: "length (data_queue (snd (wait_and_pop q))) \<le> length (data_queue q)"
  by (cases "data_queue q") (simp_all add: wait_and_pop_def)

lemma admit_room_shrink:
  assumes "admit_room c (pc, q)" and "length (data_queue q') \<le> length (data_queue q)"
  shows "admit_room c (pc, q')"
  using assms by (cases pc) simp_all

lemma admit_step_room:
  assumes "admit_room c (pc, q)" and "c \<noteq> 0"
  shows "admit_room c (admit_step c (pc, q))"
proof (cases pc)
  case (AtSizeCheck e)
  with assms(1) have "length (data_queue q) \<le> unat c" by simp
  with AtSizeCheck show ?thesis by (auto simp: size_q_ge_iff)
next
  case (AtTryPop e)
  from assms(2) have "0 < unat c" by (simp add: unat_gt_0)
  with AtTryPop assms(1) show ?thesis
    by (cases "data_queue q") (simp_all add: try_pop_value_def)
next
  case (AtPush e)
  with assms(1) show ?thesis by (simp add: push_def)
next
  case AdmitDone
  with assms(1) show ?thesis by simp
qed

lemma interleave_step_room:
  assumes "admit_room c (pc, q)" and "c \<noteq> 0"
  shows "admit_room c (fst (interleave_step c (pc, q, seen) a),
                       fst (snd (interleave_step c (pc, q, seen) a)))"
proof (cases a)
  case ProducerStep
  with admit_step_room [OF assms] show ?thesis
    by (auto split: prod.splits)
next
  case WorkerWaitAndPop
  have "admit_room c (pc, snd (wait_and_pop q))"
    using assms(1) wait_and_pop_length by (rule admit_room_shrink)
  with WorkerWaitAndPop show ?thesis
    by (auto split: prod.splits waited.splits)
next
  case OtherTryPop
  have "admit_room c (pc, snd (try_pop q))"
    using assms(1) try_pop_length by (rule admit_room_shrink)
  with OtherTryPop show ?thesis
    by (auto split: prod.splits)
next
  case OtherSize
  with assms(1) show ?thesis by simp
qed

lemma interleave_room:
  assumes "admit_room c (pc, q)" and "c \<noteq> 0"
  shows "admit_room c (fst (interleave c schedule (pc, q, seen)),
                       fst (snd (interleave c schedule (pc, q, seen))))"
  using assms(1)
proof (induction schedule arbitrary: pc q seen)
  case Nil
  then show ?case by (simp add: interleave_def)
next
  case (Cons a schedule)
  obtain pc' q' seen' where step: "interleave_step c (pc, q, seen) a = (pc', q', seen')"
    by (cases "interleave_step c (pc, q, seen) a") auto
  with interleave_step_room [OF Cons.prems assms(2), of seen a]
  have "admit_room c (pc', q')" by simp
  from Cons.IH [OF this, of seen'] step show ?case
    by (simp add: interleave_def)
qed

lemma admit_room_capacity: "admit_room c (pc, q) \<Longrightarrow> length (data_queue q) \<le> unat c"
  by (cases pc) simp_all

text \<open>
  Claim C9, amended: \<^verbatim>\<open>size()\<close>, \<^verbatim>\<open>try_pop()\<close> and \<^verbatim>\<open>push()\<close> each run under the
  queue's mutex, but the admit path calls them one after the other without holding
  it across the calls, so a concurrent pop or \<^verbatim>\<open>size()\<close> can run between the size
  check and the push. Run without interruption the three steps are the admit path;
  and under every interleaving of them with concurrent waiting pops, non-blocking pops
  and size queries, the queue never holds more than the capacity (at least 1, and
  respected before the admit starts).
\<close>

theorem interleave_capacity:
  assumes "1 \<le> c" and "length (data_queue q) \<le> unat c"
  shows "interleave c [ProducerStep, ProducerStep, ProducerStep] (AtSizeCheck e, q, [])
         = (AdmitDone, vlm_enqueue c e q, [])
     \<and> length (data_queue (fst (snd (interleave c schedule (AtSizeCheck e, q, []))))) \<le> unat c"
proof -
  from assms(1) have c0: "c \<noteq> 0" by (simp add: word32_one_le_iff)
  have serial: "interleave c [ProducerStep, ProducerStep, ProducerStep] (AtSizeCheck e, q, [])
                = (AdmitDone, vlm_enqueue c e q, [])"
    by (simp add: interleave_def vlm_enqueue_def)
  have "admit_room c (AtSizeCheck e, q)"
    using assms(2) by simp
  from interleave_room [OF this c0, of schedule "[]"]
  have bound: "length (data_queue (fst (snd (interleave c schedule (AtSizeCheck e, q, []))))) \<le> unat c"
    by (rule admit_room_capacity)
  show ?thesis
    by (intro conjI serial bound)
qed

theorem interleave_capacity_witness:
  "(1 :: 32 word) \<le> 2
   \<and> length (data_queue \<lparr>data_queue = [1::nat, 2], is_terminated = False\<rparr>) \<le> unat (2 :: 32 word)
   \<and> interleave 2 [ProducerStep, ProducerStep, ProducerStep]
        (AtSizeCheck 3, \<lparr>data_queue = [1::nat, 2], is_terminated = False\<rparr>, [])
      = (AdmitDone, \<lparr>data_queue = [2, 3], is_terminated = False\<rparr>, [])
   \<and> length (data_queue (fst (snd (interleave 2
         [ProducerStep, OtherSize, WorkerWaitAndPop, ProducerStep, OtherTryPop, ProducerStep]
         (AtSizeCheck 3, \<lparr>data_queue = [1::nat, 2], is_terminated = False\<rparr>, []))))) \<le> 2"
proof -
  let ?q = "\<lparr>data_queue = [1::nat, 2], is_terminated = False\<rparr>"
  have h1: "(1 :: 32 word) \<le> 2" by simp
  have h2: "length (data_queue ?q) \<le> unat (2 :: 32 word)" by simp
  have admit: "vlm_enqueue 2 3 ?q = \<lparr>data_queue = [2, 3], is_terminated = False\<rparr>"
    by (simp add: vlm_enqueue_def size_q_def try_pop_value_def push_def word_le_nat_alt)
  from interleave_capacity [OF h1 h2, of 3
      "[ProducerStep, OtherSize, WorkerWaitAndPop, ProducerStep, OtherTryPop, ProducerStep]"]
    h1 h2 admit
  show ?thesis by simp
qed

section \<open>The record published for a result\<close>


lemma command_connected:
  assumes "is_connected c"
  shows "command h (c, s) failed argv read_reply
         = (case redisCommandArgv h argv s of
              (reply, s') \<Rightarrow>
                (case read_reply reply of
                   Inl e \<Rightarrow> Inl (Throws e)
                 | Inr r \<Rightarrow> Inr (r, c, s')))"
  using assms by (simp add: command_def ensure_connected_def is_connected_def)







section \<open>Unreachable servers and malformed replies\<close>

lemma command_unreachable:
  assumes "\<not> connected c" and "redisConnect h (host c) (port c) s \<noteq> ConnectOk"
  shows "command h (c, s) failed argv read_reply = Inr (failed, c\<lparr>has_context := False\<rparr>, s)"
  using assms
  by (cases "redisConnect h (host c) (port c) s")
     (simp_all add: command_def ensure_connected_def is_connected_def connect_def)

text \<open>
  With no connection and none to be had, each of the seven operations returns its
  empty or false result, and sends nothing.
\<close>

lemma operations_unreachable:
  assumes "\<not> connected c" and "redisConnect h (host c) (port c) s \<noteq> ConnectOk"
  shows "xadd h stream_key flds (c, s) = Inr ([], c\<lparr>has_context := False\<rparr>, s)"
    and "xrange h stream_key start end count (c, s) = Inr ([], c\<lparr>has_context := False\<rparr>, s)"
    and "xread h stream_key start_id count block_ms (c, s) = Inr ([], c\<lparr>has_context := False\<rparr>, s)"
    and "xgroup_create h stream_key grp start_id (c, s) = Inr (False, c\<lparr>has_context := False\<rparr>, s)"
    and "xreadgroup h grp consumer stream_key count block_ms (c, s)
         = Inr ([], c\<lparr>has_context := False\<rparr>, s)"
    and "xack h stream_key grp message_id (c, s) = Inr (False, c\<lparr>has_context := False\<rparr>, s)"
    and "xinfo_stream h stream_key (c, s) = Inr ([], c\<lparr>has_context := False\<rparr>, s)"
  unfolding xadd_def xrange_def xread_def xgroup_create_def xreadgroup_def xack_def
    xinfo_stream_def
  by (rule command_unreachable [OF assms])+

lemma xack_unreachable_example:
  "xack unreachable_server ''vlm:results:stream'' ''vlm_processors'' ''5-0''
     (new_client ''localhost'' 6379 [], [])
   = Inr (False, new_client ''localhost'' 6379 [], [])"
  by (simp add: xack_def command_def ensure_connected_def is_connected_def connect_def
        new_client_def unreachable_server_def)

text \<open>
  On an established connection a null reply (the transport failed under the command)
  gives the empty or false result as well.
\<close>

lemma operations_null_reply:
  assumes "is_connected c" and "\<And>argv. redisCommandArgv h argv s = (None, s')"
  shows "xadd h stream_key flds (c, s) = Inr ([], c, s')"
    and "xrange h stream_key start end count (c, s) = Inr ([], c, s')"
    and "xread h stream_key start_id count block_ms (c, s) = Inr ([], c, s')"
    and "xgroup_create h stream_key grp start_id (c, s) = Inr (False, c, s')"
    and "xreadgroup h grp consumer stream_key count block_ms (c, s) = Inr ([], c, s')"
    and "xack h stream_key grp message_id (c, s) = Inr (False, c, s')"
    and "xinfo_stream h stream_key (c, s) = Inr ([], c, s')"
  using assms
  by (simp_all add: xadd_def xrange_def xread_def xgroup_create_def xreadgroup_def xack_def
        xinfo_stream_def command_connected parse_xrange_reply_def parse_xread_reply_def)

text \<open>
  A reply that is not an array, or an array element that is not a two-element array,
  is read as no message.
\<close>

lemma parse_stream_message_shape:
  "parse_stream_message None = Inr empty_message"
  "parse_stream_message (Some (REDIS_REPLY_STRING x)) = Inr empty_message"
  "parse_stream_message (Some (REDIS_REPLY_INTEGER i)) = Inr empty_message"
  "parse_stream_message (Some REDIS_REPLY_NIL) = Inr empty_message"
  "parse_stream_message (Some (REDIS_REPLY_STATUS x)) = Inr empty_message"
  "parse_stream_message (Some (REDIS_REPLY_ERROR x)) = Inr empty_message"
  "parse_stream_message (Some (REDIS_REPLY_ARRAY [])) = Inr empty_message"
  "parse_stream_message (Some (REDIS_REPLY_ARRAY [r])) = Inr empty_message"
  by (simp_all add: parse_stream_message_def)

lemma stoull_no_digit:
  "stoull ''abc'' = Inl invalid_argument"
  "stoull [] = Inl invalid_argument"
  "stoull ''18446744073709551616'' = Inl out_of_range"
  by (simp_all add: stoull_def isspace_def isdigit_def digits_value_def)

text \<open>
  Where \<^verbatim>\<open>connect\<close> authenticates, a null reply to \<^verbatim>\<open>AUTH\<close> is read through.
\<close>

lemma connect_auth_null_reply:
  assumes "\<not> connected c" and "redisConnect h (host c) (port c) s = ConnectOk"
    and "password c \<noteq> []" and "redisCommandArgv h [''AUTH'', password c] s = (None, s')"
  shows "connect h (c, s) = Inl NullPointerRead"
  using assms by (simp add: connect_def)

text \<open>
  Claim C6 at a malformed reply: the server answers a range request, a read and a group
  read with one record whose id is the string \<open>abc-0\<close>. The claim has each operation
  return an empty result; in the code \<^verbatim>\<open>std::stoull\<close> is called on \<open>abc\<close>, throws
  \<^verbatim>\<open>std::invalid_argument\<close>, and nothing between it and the caller of the operation
  catches the exception.
\<close>

theorem xrange_malformed_id_throws:
  "xrange (recording_server (Some (REDIS_REPLY_ARRAY
             [REDIS_REPLY_ARRAY [REDIS_REPLY_STRING ''abc-0'', REDIS_REPLY_ARRAY []]])))
     ''s'' ''-'' ''+'' 10 (new_client ''localhost'' 6379 [], [])
   = Inl (Throws invalid_argument)
   \<and> xread (recording_server (Some (REDIS_REPLY_ARRAY
             [REDIS_REPLY_ARRAY [REDIS_REPLY_STRING ''s'', REDIS_REPLY_ARRAY
               [REDIS_REPLY_ARRAY [REDIS_REPLY_STRING ''abc-0'', REDIS_REPLY_ARRAY []]]]])))
     ''s'' ''0'' 10 0 (new_client ''localhost'' 6379 [], [])
   = Inl (Throws invalid_argument)
   \<and> xreadgroup (recording_server (Some (REDIS_REPLY_ARRAY
             [REDIS_REPLY_ARRAY [REDIS_REPLY_STRING ''s'', REDIS_REPLY_ARRAY
               [REDIS_REPLY_ARRAY [REDIS_REPLY_STRING ''abc-0'', REDIS_REPLY_ARRAY []]]]])))
     ''g'' ''n'' ''s'' 1 0 (new_client ''localhost'' 6379 [], [])
   = Inl (Throws invalid_argument)"
proof -
  have id: "parse_message_id (REDIS_REPLY_STRING ''abc-0'') = Inl invalid_argument"
    by (simp add: parse_message_id_def stoull_no_digit)
  hence msg: "parse_stream_message (Some (REDIS_REPLY_ARRAY
                [REDIS_REPLY_STRING ''abc-0'', REDIS_REPLY_ARRAY []])) = Inl invalid_argument"
    by (simp add: parse_stream_message_def)
  hence range: "parse_xrange_reply (Some (REDIS_REPLY_ARRAY
             [REDIS_REPLY_ARRAY [REDIS_REPLY_STRING ''abc-0'', REDIS_REPLY_ARRAY []]]))
        = Inl invalid_argument"
    by (simp add: parse_xrange_reply_def)
  from msg have read: "parse_xread_reply (Some (REDIS_REPLY_ARRAY
             [REDIS_REPLY_ARRAY [REDIS_REPLY_STRING ''s'', REDIS_REPLY_ARRAY
               [REDIS_REPLY_ARRAY [REDIS_REPLY_STRING ''abc-0'', REDIS_REPLY_ARRAY []]]]]))
        = Inl invalid_argument"
    by (simp add: parse_xread_reply_def)
  show ?thesis
    by (simp add: xrange_def xread_def xreadgroup_def command_def ensure_connected_def
          is_connected_def connect_def new_client_def recording_server_def range read)
qed

section \<open>Group creation and acknowledgement against the log server\<close>

















text \<open>\<^verbatim>\<open>ack_message\<close> of the stream manager is \<^verbatim>\<open>xack\<close> for the manager's group.\<close>

lemma ack_message_xack:
  "ack_message h stream message_id (m, s)
   = (case xack h stream (consumer_group m) message_id (redis_client m, s) of
        Inl f \<Rightarrow> Inl f
      | Inr (b, c, s') \<Rightarrow> Inr (b, m\<lparr>redis_client := c\<rparr>, s'))"
  by (simp add: ack_message_def)
end
